theory Spec2Isabelle
  imports Complex_Main "HOL-Library.Product_Lexorder" "HOL-Library.Option_ord"
begin

section \<open>Workshop capacity board: values, records and dates\<close>

text \<open>
  The board exists in two files. \<^verbatim>\<open>app.py\<close> selects orders by distribution branch
  and shows one highlighted section above four columns; \<^verbatim>\<open>test.py\<close> selects orders by
  a stage prefix and shows four highlighted sections above one column. The fetcher, the
  date parser and the body of the classifier are the same text in both files; where the
  files differ the model takes the file as an argument.
\<close>

datatype variant = AppPy | TestPy

text \<open>Exceptions that leave the modelled functions. \<open>StopException\<close> is what
  \<^verbatim>\<open>st.stop()\<close> raises to halt the script run.\<close>

datatype py_error =
  AttributeError | TypeError | ValueError | OverflowError | IndexError | StopException

definition or_raise :: "py_error + 'a \<Rightarrow> ('a \<Rightarrow> py_error + 'b) \<Rightarrow> py_error + 'b" where
  "or_raise m f = (case m of Inl e \<Rightarrow> Inl e | Inr v \<Rightarrow> f v)"

text \<open>\<^verbatim>\<open>datetime.datetime\<close> (naive) and \<^verbatim>\<open>datetime.date\<close>.\<close>

record datetime =
  year :: nat
  month :: nat
  day :: nat
  hour :: nat
  minute :: nat
  second :: nat
  microsecond :: nat

record date =
  d_year :: nat
  d_month :: nat
  d_day :: nat

text \<open>
  A decoded JSON value, or a \<^verbatim>\<open>datetime\<close> object. A \<^verbatim>\<open>dict\<close> is an association
  list read with \<open>map_of\<close>. A \<^verbatim>\<open>float\<close> is carried as the rational it denotes:
  addition is exact here, so rounding to 53 bits, infinities and NaN are outside the
  model. Strings are lists of 8-bit characters; the model is exact on ASCII text.
\<close>

datatype pyval =
    PNone
  | PBool bool
  | PInt int
  | PFloat rat
  | PStr string
  | PList "pyval list"
  | PDict "(string \<times> pyval) list"
  | PDateTime datetime

text \<open>Truth value testing, as \<^verbatim>\<open>if x\<close>, \<^verbatim>\<open>not x\<close> and \<^verbatim>\<open>x or y\<close> use it.\<close>

fun truthy :: "pyval \<Rightarrow> bool" where
  "truthy PNone = False"
| "truthy (PBool b) = b"
| "truthy (PInt n) = (n \<noteq> 0)"
| "truthy (PFloat r) = (r \<noteq> 0)"
| "truthy (PStr s) = (s \<noteq> [])"
| "truthy (PList xs) = (xs \<noteq> [])"
| "truthy (PDict kvs) = (kvs \<noteq> [])"
| "truthy (PDateTime d) = True"

definition py_or :: "pyval \<Rightarrow> pyval \<Rightarrow> pyval" where
  "py_or a b = (if truthy a then a else b)"

text \<open>\<^verbatim>\<open>d.get(key)\<close>: the value, or \<^verbatim>\<open>None\<close> for a missing key.\<close>

definition dict_get :: "(string \<times> pyval) list \<Rightarrow> string \<Rightarrow> pyval" where
  "dict_get d k = (case map_of d k of None \<Rightarrow> PNone | Some v \<Rightarrow> v)"

text \<open>\<^verbatim>\<open>d.get(key, default)\<close>.\<close>

definition dict_get_default :: "(string \<times> pyval) list \<Rightarrow> string \<Rightarrow> pyval \<Rightarrow> pyval" where
  "dict_get_default d k dflt = (case map_of d k of None \<Rightarrow> dflt | Some v \<Rightarrow> v)"

subsection \<open>Field reconciler\<close>

text \<open>\<^verbatim>\<open>c.lower()\<close> on an ASCII character.\<close>

definition lower_char :: "char \<Rightarrow> char" where
  "lower_char c =
     (let n = (of_char c :: nat) in if 65 \<le> n \<and> n \<le> 90 then char_of (n + 32) else c)"

text \<open>
  \<^verbatim>\<open>
  def get_field(field_name):
      # Try PascalCase first, then camelCase
      return order.get(field_name) or order.get(field_name[0].lower() + field_name[1:])
  \<close>
  The closure reads the \<^verbatim>\<open>order\<close> of the enclosing loop, which is a \<^verbatim>\<open>dict\<close> by the
  time the closure is defined. \<^verbatim>\<open>or\<close> evaluates its right operand only when the left
  one is falsy, so \<^verbatim>\<open>field_name[0]\<close> raises on an empty name only then.
\<close>

definition get_field :: "(string \<times> pyval) list \<Rightarrow> string \<Rightarrow> py_error + pyval" where
  "get_field order field_name =
     (if truthy (dict_get order field_name) then Inr (dict_get order field_name)
      else case field_name of
             [] \<Rightarrow> Inl IndexError
           | c # cs \<Rightarrow> Inr (dict_get order (lower_char c # cs)))"

subsection \<open>Calendar arithmetic of \<^verbatim>\<open>datetime\<close>\<close>

definition is_leap :: "nat \<Rightarrow> bool" where
  "is_leap y = (y mod 4 = 0 \<and> (y mod 100 \<noteq> 0 \<or> y mod 400 = 0))"

definition days_in_month :: "nat \<Rightarrow> nat \<Rightarrow> nat" where
  "days_in_month y m =
     (if m = 2 then (if is_leap y then 29 else 28)
      else if m = 4 \<or> m = 6 \<or> m = 9 \<or> m = 11 then 30 else 31)"

definition days_before_year :: "nat \<Rightarrow> nat" where
  "days_before_year y = (y - 1) * 365 + (y - 1) div 4 - (y - 1) div 100 + (y - 1) div 400"

definition days_before_month :: "nat \<Rightarrow> nat \<Rightarrow> nat" where
  "days_before_month y m = sum_list (map (days_in_month y) [1..<m])"

text \<open>\<^verbatim>\<open>date.toordinal()\<close>: 1 January of year 1 is day 1.\<close>

definition toordinal :: "date \<Rightarrow> int" where
  "toordinal dt = int (days_before_year (d_year dt) + days_before_month (d_year dt) (d_month dt) + d_day dt)"

text \<open>\<^verbatim>\<open>datetime.date()\<close>.\<close>

definition date_of :: "datetime \<Rightarrow> date" where
  "date_of t = \<lparr>d_year = year t, d_month = month t, d_day = day t\<rparr>"

text \<open>The range checks of the \<^verbatim>\<open>datetime\<close> constructor; a failed check is a
  \<^verbatim>\<open>ValueError\<close>, here \<open>None\<close>.\<close>

definition datetime_new :: "nat \<Rightarrow> nat \<Rightarrow> nat \<Rightarrow> nat \<Rightarrow> nat \<Rightarrow> nat \<Rightarrow> nat \<Rightarrow> datetime option" where
  "datetime_new y m d hh mm ss us =
     (if 1 \<le> y \<and> y \<le> 9999 \<and> 1 \<le> m \<and> m \<le> 12 \<and> 1 \<le> d \<and> d \<le> days_in_month y m
         \<and> hh \<le> 23 \<and> mm \<le> 59 \<and> ss \<le> 59 \<and> us \<le> 999999
      then Some \<lparr>year = y, month = m, day = d, hour = hh, minute = mm, second = ss, microsecond = us\<rparr>
      else None)"

section \<open>Date normalizer\<close>

subsection \<open>\<^verbatim>\<open>datetime.strptime\<close>\<close>

text \<open>
  \<^verbatim>\<open>strptime\<close> turns the format into a regular expression, one group per directive,
  matches it at the start of the text ignoring case, and raises \<^verbatim>\<open>ValueError\<close> when
  there is no match, when text is left over, or when the fields are not a date. The
  groups of the directives used by the seven formats of \<^verbatim>\<open>parse_date\<close> are
  \<^verbatim>\<open>
  'd': (3[0-1]|[1-2]\d|0[1-9]|[1-9]| [1-9])     'm': (1[0-2]|0[1-9]|[1-9])
  'H': (2[0-3]|[0-1]\d|\d)    'M': ([0-5]\d|\d)    'S': (6[0-1]|[0-5]\d|\d)
  'Y': (\d\d\d\d)             'f': ([0-9]{1,6})
  \<close>
  An alternative is a sequence of atoms; alternatives are tried left to right, and a
  later one is tried when the rest of the format fails after an earlier one, as the
  backtracking matcher does. The greedy \<^verbatim>\<open>{1,6}\<close> is the alternatives of six down to one
  digit.
\<close>

datatype atom = Digit nat nat | Chr char

definition digit_value :: "char \<Rightarrow> nat option" where
  "digit_value c =
     (let n = (of_char c :: nat) in if 48 \<le> n \<and> n \<le> 57 then Some (n - 48) else None)"

fun match_atom :: "atom \<Rightarrow> char \<Rightarrow> bool" where
  "match_atom (Digit lo hi) c = (case digit_value c of None \<Rightarrow> False | Some v \<Rightarrow> lo \<le> v \<and> v \<le> hi)"
| "match_atom (Chr x) c = (c = x)"

text \<open>The text matched by a sequence of atoms at the start of \<open>s\<close>, and what follows it.\<close>

fun match_atoms :: "atom list \<Rightarrow> string \<Rightarrow> (string \<times> string) option" where
  "match_atoms [] s = Some ([], s)"
| "match_atoms (a # as) [] = None"
| "match_atoms (a # as) (c # cs) =
     (if match_atom a c
      then (case match_atoms as cs of None \<Rightarrow> None | Some (tok, rest) \<Rightarrow> Some (c # tok, rest))
      else None)"

definition directive_regex :: "char \<Rightarrow> atom list list" where
  "directive_regex d =
     (if d = CHR ''d'' then
        [[Digit 3 3, Digit 0 1], [Digit 1 2, Digit 0 9], [Digit 0 0, Digit 1 9], [Digit 1 9],
         [Chr CHR '' '', Digit 1 9]]
      else if d = CHR ''f'' then map (\<lambda>n. replicate n (Digit 0 9)) [6, 5, 4, 3, 2, 1]
      else if d = CHR ''H'' then [[Digit 2 2, Digit 0 3], [Digit 0 1, Digit 0 9], [Digit 0 9]]
      else if d = CHR ''m'' then [[Digit 1 1, Digit 0 2], [Digit 0 0, Digit 1 9], [Digit 1 9]]
      else if d = CHR ''M'' then [[Digit 0 5, Digit 0 9], [Digit 0 9]]
      else if d = CHR ''S'' then [[Digit 6 6, Digit 0 1], [Digit 0 5, Digit 0 9], [Digit 0 9]]
      else if d = CHR ''Y'' then [[Digit 0 9, Digit 0 9, Digit 0 9, Digit 0 9]]
      else [])"

datatype fmt_elem = Lit char | Directive char

text \<open>A format string read as literals and \<^verbatim>\<open>%x\<close> directives. The formats of
  \<^verbatim>\<open>parse_date\<close> hold no white space and no stray \<^verbatim>\<open>%\<close>.\<close>

fun compile_format :: "string \<Rightarrow> fmt_elem list" where
  "compile_format [] = []"
| "compile_format [c] = [Lit c]"
| "compile_format (c # d # cs) =
     (if c = CHR ''%'' then Directive d # compile_format cs else Lit c # compile_format (d # cs))"

fun first_some :: "('a \<Rightarrow> 'b option) \<Rightarrow> 'a list \<Rightarrow> 'b option" where
  "first_some f [] = None"
| "first_some f (x # xs) = (case f x of None \<Rightarrow> first_some f xs | Some y \<Rightarrow> Some y)"

text \<open>The first match in the matcher's order: the groups found, and the unconverted
  rest of the text.\<close>

fun regex_match :: "fmt_elem list \<Rightarrow> string \<Rightarrow> ((char \<times> string) list \<times> string) option" where
  "regex_match [] s = Some ([], s)"
| "regex_match (Lit x # fs) [] = None"
| "regex_match (Lit x # fs) (c # cs) =
     (if lower_char c = lower_char x then regex_match fs cs else None)"
| "regex_match (Directive d # fs) s =
     first_some
       (\<lambda>alt. case match_atoms alt s of
                None \<Rightarrow> None
              | Some (tok, rest) \<Rightarrow>
                  (case regex_match fs rest of
                     None \<Rightarrow> None
                   | Some (groups, unconverted) \<Rightarrow> Some ((d, tok) # groups, unconverted)))
       (directive_regex d)"

text \<open>\<^verbatim>\<open>int(text)\<close> on a group: digits, after the leading blank that \<^verbatim>\<open>%d\<close> admits.\<close>

definition py_int :: "string \<Rightarrow> nat" where
  "py_int s = foldl (\<lambda>n c. 10 * n + (case digit_value c of None \<Rightarrow> 0 | Some v \<Rightarrow> v)) 0
                (dropWhile (\<lambda>c. c = CHR '' '') s)"

definition group_int :: "(char \<times> string) list \<Rightarrow> char \<Rightarrow> nat \<Rightarrow> nat" where
  "group_int groups d dflt = (case map_of groups d of None \<Rightarrow> dflt | Some tok \<Rightarrow> py_int tok)"

text \<open>
  \<^verbatim>\<open>year\<close> defaults to 1900, \<^verbatim>\<open>month\<close> and \<^verbatim>\<open>day\<close> to 1, the time to 0; the fraction
  is padded with zeros to six digits. \<open>None\<close> is \<^verbatim>\<open>ValueError\<close>.
\<close>

definition strptime :: "string \<Rightarrow> string \<Rightarrow> datetime option" where
  "strptime data_string format =
     (case regex_match (compile_format format) data_string of
        None \<Rightarrow> None
      | Some (groups, unconverted) \<Rightarrow>
          if unconverted \<noteq> [] then None
          else datetime_new (group_int groups CHR ''Y'' 1900) (group_int groups CHR ''m'' 1)
                 (group_int groups CHR ''d'' 1) (group_int groups CHR ''H'' 0)
                 (group_int groups CHR ''M'' 0) (group_int groups CHR ''S'' 0)
                 (case map_of groups CHR ''f'' of
                    None \<Rightarrow> 0
                  | Some tok \<Rightarrow> py_int (tok @ replicate (6 - length tok) CHR ''0'')))"

subsection \<open>\<^verbatim>\<open>parse_date\<close>\<close>

text \<open>\<^verbatim>\<open>s.replace(old, "")\<close> for a non-empty \<^verbatim>\<open>old\<close>: every occurrence, left to right,
  without overlap.\<close>

fun str_remove :: "string \<Rightarrow> string \<Rightarrow> string" where
  "str_remove old [] = []"
| "str_remove old (c # cs) =
     (if old \<noteq> [] \<and> take (length old) (c # cs) = old
      then str_remove old (drop (length old) (c # cs))
      else c # str_remove old cs)"

definition date_formats :: "string list" where
  "date_formats =
     [''%Y-%m-%dT%H:%M:%S'',
      ''%Y-%m-%dT%H:%M:%S.%f'',
      ''%Y-%m-%dT%H:%M:%SZ'',
      ''%Y-%m-%dT%H:%M:%S.%fZ'',
      ''%Y-%m-%d'',
      ''%d/%m/%Y'',
      ''%m/%d/%Y'']"

text \<open>
  \<^verbatim>\<open>
  if date_value is None: return None
  if isinstance(date_value, datetime): return date_value
  if not isinstance(date_value, str): return None
  for fmt in date_formats:
      try:
          return datetime.strptime(date_value.replace("+00:00", "").replace("Z", ""),
                                   fmt.replace("Z", ""))
      except ValueError:
          continue
  return None
  \<close>
\<close>

fun parse_date :: "pyval \<Rightarrow> datetime option" where
  "parse_date PNone = None"
| "parse_date (PDateTime t) = Some t"
| "parse_date (PStr s) =
     first_some (\<lambda>fmt. strptime (str_remove ''Z'' (str_remove ''+00:00'' s)) (str_remove ''Z'' fmt))
       date_formats"
| "parse_date v = None"

text \<open>\<^verbatim>\<open>datetime.isoformat()\<close> and \<^verbatim>\<open>str(datetime)\<close>, which is \<^verbatim>\<open>isoformat(sep=' ')\<close>:
  zero-padded fields, the six-digit fraction only when it is not zero.\<close>

definition digit_char :: "nat \<Rightarrow> char" where
  "digit_char n = char_of (48 + n mod 10)"

definition pad2 :: "nat \<Rightarrow> string" where
  "pad2 n = [digit_char (n div 10), digit_char n]"

definition pad4 :: "nat \<Rightarrow> string" where
  "pad4 n = pad2 (n div 100) @ pad2 (n mod 100)"

definition pad6 :: "nat \<Rightarrow> string" where
  "pad6 n = pad2 (n div 10000) @ pad4 (n mod 10000)"

definition isoformat_sep :: "char \<Rightarrow> datetime \<Rightarrow> string" where
  "isoformat_sep sep t =
     pad4 (year t) @ ''-'' @ pad2 (month t) @ ''-'' @ pad2 (day t) @ [sep]
     @ pad2 (hour t) @ '':'' @ pad2 (minute t) @ '':'' @ pad2 (second t)
     @ (if microsecond t = 0 then [] else ''.'' @ pad6 (microsecond t))"

definition isoformat :: "datetime \<Rightarrow> string" where
  "isoformat t = isoformat_sep CHR ''T'' t"

definition datetime_str :: "datetime \<Rightarrow> string" where
  "datetime_str t = isoformat_sep CHR '' '' t"

section \<open>Order classifier\<close>

definition DUE_SOON_DAYS :: int where
  "DUE_SOON_DAYS = 7"

text \<open>\<^verbatim>\<open>DISTRIBUTION_BRANCH_ID = 6877\<close> in \<^verbatim>\<open>app.py\<close>;
  \<^verbatim>\<open>WORKSHOP_STAGE_PREFIX = "Workshop - "\<close> in \<^verbatim>\<open>test.py\<close>.\<close>

definition DISTRIBUTION_BRANCH_ID :: int where
  "DISTRIBUTION_BRANCH_ID = 6877"

definition WORKSHOP_STAGE_PREFIX :: string where
  "WORKSHOP_STAGE_PREFIX = ''Workshop - ''"

text \<open>One entry of \<^verbatim>\<open>processed\<close>, a row of the data frame. A column filled by
  \<^verbatim>\<open>get_field(...) or ""\<close> holds whatever truthy value the record had.\<close>

record order_row =
  Id_col :: pyval
  Reference :: pyval
  ProjectName :: pyval
  Company :: pyval
  CreatedDate :: "datetime option"
  ModifiedDate :: "datetime option"
  Stage :: pyval
  Status :: pyval
  BranchId :: pyval
  EstimatedDeliveryDate :: "datetime option"
  DispatchedDate :: "datetime option"
  LineCount :: nat
  QtyTotal :: rat
  SizeBucket :: string
  WorkloadScore :: rat
  IsOverdue :: bool
  IsDueSoon :: bool
  IsOnTrack :: bool
  DaysOverdue :: "int option"
  HasLineItems :: bool

text \<open>
  \<^verbatim>\<open>float(x)\<close>. An \<^verbatim>\<open>int\<close> that rounds beyond the largest double raises
  \<^verbatim>\<open>OverflowError\<close>; text is read by the library's parser, an argument of the model
  (\<open>None\<close> when it raises \<^verbatim>\<open>ValueError\<close>); \<^verbatim>\<open>None\<close>, lists, dicts and datetimes raise
  \<^verbatim>\<open>TypeError\<close>.
\<close>

fun py_float :: "(string \<Rightarrow> rat option) \<Rightarrow> pyval \<Rightarrow> py_error + rat" where
  "py_float sf (PInt n) = (if 2 ^ 1024 - 2 ^ 970 \<le> \<bar>n\<bar> then Inl OverflowError else Inr (of_int n))"
| "py_float sf (PFloat r) = Inr r"
| "py_float sf (PBool b) = Inr (if b then 1 else 0)"
| "py_float sf (PStr s) = (case sf s of None \<Rightarrow> Inl ValueError | Some r \<Rightarrow> Inr r)"
| "py_float sf v = Inl TypeError"

text \<open>
  \<^verbatim>\<open>
  qty = item.get("Qty") or item.get("qty") or item.get("UomQtyOrdered") or item.get("uomQtyOrdered") or 0
  \<close>
\<close>

definition item_qty :: "(string \<times> pyval) list \<Rightarrow> pyval" where
  "item_qty item =
     py_or (py_or (py_or (py_or (dict_get item ''Qty'') (dict_get item ''qty''))
                         (dict_get item ''UomQtyOrdered''))
                  (dict_get item ''uomQtyOrdered''))
           (PInt 0)"

text \<open>
  \<^verbatim>\<open>
  for item in (line_items or []):
      qty = ...
      try:
          qty_total += float(qty)
      except (TypeError, ValueError):
          pass
  \<close>
  \<^verbatim>\<open>item.get\<close> stands outside the \<^verbatim>\<open>try\<close>: an item that is not a \<^verbatim>\<open>dict\<close> raises
  \<^verbatim>\<open>AttributeError\<close>.
\<close>

fun qty_loop :: "(string \<Rightarrow> rat option) \<Rightarrow> pyval list \<Rightarrow> rat \<Rightarrow> py_error + rat" where
  "qty_loop sf [] qty_total = Inr qty_total"
| "qty_loop sf (PDict item # items) qty_total =
     (case py_float sf (item_qty item) of
        Inr q \<Rightarrow> qty_loop sf items (qty_total + q)
      | Inl TypeError \<Rightarrow> qty_loop sf items qty_total
      | Inl ValueError \<Rightarrow> qty_loop sf items qty_total
      | Inl e \<Rightarrow> Inl e)"
| "qty_loop sf (item # items) qty_total = Inl AttributeError"

text \<open>The elements of a truthy \<^verbatim>\<open>line_items\<close>, as \<^verbatim>\<open>len\<close> and \<^verbatim>\<open>for\<close> see them: a
  string yields its characters, a \<^verbatim>\<open>dict\<close> its keys, and a value without a length
  makes \<^verbatim>\<open>len(line_items)\<close> raise \<^verbatim>\<open>TypeError\<close>.\<close>

fun items_of :: "pyval \<Rightarrow> py_error + pyval list" where
  "items_of (PList xs) = Inr xs"
| "items_of (PStr s) = Inr (map (\<lambda>c. PStr [c]) s)"
| "items_of (PDict kvs) = Inr (map (\<lambda>kv. PStr (fst kv)) kvs)"
| "items_of v = Inl TypeError"

text \<open>
  \<^verbatim>\<open>
  line_items = get_field("LineItems") or []
  line_count = len(line_items) if line_items else 0
  qty_total = 0
  for item in (line_items or []): ...
  \<close>
  The result is \<^verbatim>\<open>(line_count, qty_total)\<close>.
\<close>

definition line_metrics :: "(string \<Rightarrow> rat option) \<Rightarrow> pyval \<Rightarrow> py_error + (nat \<times> rat)" where
  "line_metrics sf line_items =
     (if truthy line_items
      then or_raise (items_of line_items)
             (\<lambda>items. or_raise (qty_loop sf items 0) (\<lambda>qty_total. Inr (length items, qty_total)))
      else Inr (0, 0))"

definition size_bucket :: "nat \<Rightarrow> string" where
  "size_bucket line_count = (if line_count < 10 then ''S'' else if line_count < 30 then ''M'' else ''L'')"

text \<open>
  \<^verbatim>\<open>
  is_overdue = False; is_due_soon = False; is_on_track = False; days_overdue = None
  if estimated_delivery and not is_dispatched:
      est_date = estimated_delivery.date() if hasattr(estimated_delivery, 'date') else estimated_delivery
      days_until_due = (est_date - today).days
      if days_until_due < 0:
          is_overdue = True
          days_overdue = abs(days_until_due)
      elif days_until_due <= DUE_SOON_DAYS:
          is_due_soon = True
      else:
          is_on_track = True
  \<close>
  A \<^verbatim>\<open>datetime\<close> is always truthy. The result is
  \<^verbatim>\<open>(is_overdue, is_due_soon, is_on_track, days_overdue)\<close>.
\<close>

definition status_flags :: "date \<Rightarrow> datetime option \<Rightarrow> bool \<Rightarrow> bool \<times> bool \<times> bool \<times> int option" where
  "status_flags today estimated_delivery is_dispatched =
     (case estimated_delivery of
        None \<Rightarrow> (False, False, False, None)
      | Some t \<Rightarrow>
          if is_dispatched then (False, False, False, None)
          else let days_until_due = toordinal (date_of t) - toordinal today in
               if days_until_due < 0 then (True, False, False, Some \<bar>days_until_due\<bar>)
               else if days_until_due \<le> DUE_SOON_DAYS then (False, True, False, None)
               else (False, False, True, None))"

text \<open>\<^verbatim>\<open>x == n\<close> for an \<^verbatim>\<open>int\<close> constant \<^verbatim>\<open>n\<close>: numbers compare by value, \<^verbatim>\<open>True\<close> is 1
  and \<^verbatim>\<open>False\<close> is 0, anything else differs.\<close>

fun py_eq_int :: "pyval \<Rightarrow> int \<Rightarrow> bool" where
  "py_eq_int (PInt k) n = (k = n)"
| "py_eq_int (PFloat r) n = (r = of_int n)"
| "py_eq_int (PBool b) n = ((if b then 1 else 0) = n)"
| "py_eq_int v n = False"

text \<open>\<^verbatim>\<open>is_void = order.get("IsVoid") or order.get("isVoid") or False\<close>\<close>

definition is_void :: "(string \<times> pyval) list \<Rightarrow> pyval" where
  "is_void order = py_or (py_or (dict_get order ''IsVoid'') (dict_get order ''isVoid'')) (PBool False)"

text \<open>
  The inclusion rule; \<open>Inr False\<close> is \<^verbatim>\<open>continue\<close>. In \<^verbatim>\<open>app.py\<close>:
  \<^verbatim>\<open>
  dist_branch_id = order.get("DistributionBranchId") or order.get("distributionBranchId")
  if DISTRIBUTION_BRANCH_ID:
      if dist_branch_id != DISTRIBUTION_BRANCH_ID:
          continue
  \<close>
  In \<^verbatim>\<open>test.py\<close>, where a truthy stage that is not text has no \<^verbatim>\<open>startswith\<close>:
  \<^verbatim>\<open>
  stage = order.get("Stage") or order.get("stage") or ""
  if not stage.startswith(WORKSHOP_STAGE_PREFIX):
      continue
  \<close>
\<close>

fun included :: "variant \<Rightarrow> (string \<times> pyval) list \<Rightarrow> py_error + bool" where
  "included AppPy order =
     (let dist_branch_id = py_or (dict_get order ''DistributionBranchId'')
                                 (dict_get order ''distributionBranchId'')
      in if truthy (PInt DISTRIBUTION_BRANCH_ID)
         then Inr (py_eq_int dist_branch_id DISTRIBUTION_BRANCH_ID)
         else Inr True)"
| "included TestPy order =
     (case py_or (py_or (dict_get order ''Stage'') (dict_get order ''stage'')) (PStr []) of
        PStr stage \<Rightarrow> Inr (take (length WORKSHOP_STAGE_PREFIX) stage = WORKSHOP_STAGE_PREFIX)
      | _ \<Rightarrow> Inl AttributeError)"

text \<open>\<^verbatim>\<open>stage\<close>: \<^verbatim>\<open>get_field("Stage") or ""\<close> in \<^verbatim>\<open>app.py\<close>, the variable of the
  inclusion rule in \<^verbatim>\<open>test.py\<close>.\<close>

fun stage_of :: "variant \<Rightarrow> (string \<times> pyval) list \<Rightarrow> py_error + pyval" where
  "stage_of AppPy order = or_raise (get_field order ''Stage'') (\<lambda>v. Inr (py_or v (PStr [])))"
| "stage_of TestPy order =
     Inr (py_or (py_or (dict_get order ''Stage'') (dict_get order ''stage'')) (PStr []))"

text \<open>The rest of the loop body, for a record that is kept: the fields in the order
  the source reads them.\<close>

definition build_row ::
  "variant \<Rightarrow> (string \<Rightarrow> rat option) \<Rightarrow> date \<Rightarrow> (string \<times> pyval) list \<Rightarrow> py_error + order_row" where
  "build_row v sf today order =
     or_raise (get_field order ''CreatedDate'') (\<lambda>created.
     or_raise (get_field order ''ModifiedDate'') (\<lambda>modified.
     or_raise (get_field order ''EstimatedDeliveryDate'') (\<lambda>estimated.
     or_raise (get_field order ''DispatchedDate'') (\<lambda>dispatched.
     or_raise (get_field order ''LineItems'') (\<lambda>items_field.
     let created_date = parse_date created;
         modified_date = parse_date modified;
         estimated_delivery = parse_date estimated;
         dispatched_date = parse_date dispatched;
         line_items = py_or items_field (PList [])
     in
     or_raise (line_metrics sf line_items) (\<lambda>(line_count, qty_total).
     or_raise (stage_of v order) (\<lambda>stage.
     let workload_score = of_nat line_count + qty_total / 10;
         is_dispatched = (stage = PStr ''Dispatched'' \<or> dispatched_date \<noteq> None);
         flags = status_flags today estimated_delivery is_dispatched
     in
     or_raise (get_field order ''Id'') (\<lambda>id_field.
     or_raise (get_field order ''Reference'') (\<lambda>reference.
     or_raise (get_field order ''ProjectName'') (\<lambda>project_name.
     or_raise (get_field order ''Company'') (\<lambda>company.
     or_raise (get_field order ''Status'') (\<lambda>status.
     or_raise (get_field order ''BranchId'') (\<lambda>branch_id.
       Inr \<lparr>Id_col = id_field,
            Reference = py_or reference (PStr []),
            ProjectName = py_or project_name (PStr []),
            Company = py_or company (PStr []),
            CreatedDate = created_date,
            ModifiedDate = modified_date,
            Stage = stage,
            Status = py_or status (PStr []),
            BranchId = branch_id,
            EstimatedDeliveryDate = estimated_delivery,
            DispatchedDate = dispatched_date,
            LineCount = line_count,
            QtyTotal = qty_total,
            SizeBucket = size_bucket line_count,
            WorkloadScore = workload_score,
            IsOverdue = fst flags,
            IsDueSoon = fst (snd flags),
            IsOnTrack = fst (snd (snd flags)),
            DaysOverdue = snd (snd (snd flags)),
            HasLineItems = truthy line_items\<rparr>)))))))))))))"

text \<open>One pass of \<^verbatim>\<open>for order in orders\<close>: \<open>Inr None\<close> is \<^verbatim>\<open>continue\<close>, \<open>Inr (Some row)\<close>
  is \<^verbatim>\<open>processed.append(row)\<close>. \<^verbatim>\<open>order.get\<close> raises on an element that is not a
  \<^verbatim>\<open>dict\<close>.\<close>

definition process_order ::
  "variant \<Rightarrow> (string \<Rightarrow> rat option) \<Rightarrow> date \<Rightarrow> pyval \<Rightarrow> py_error + order_row option" where
  "process_order v sf today order =
     (case order of
        PDict d \<Rightarrow>
          if truthy (is_void d) then Inr None
          else or_raise (included v d)
                 (\<lambda>keep. if keep then or_raise (build_row v sf today d) (\<lambda>row. Inr (Some row))
                          else Inr None)
      | _ \<Rightarrow> Inl AttributeError)"

fun process_loop ::
  "variant \<Rightarrow> (string \<Rightarrow> rat option) \<Rightarrow> date \<Rightarrow> pyval list \<Rightarrow> order_row list \<Rightarrow> py_error + order_row list" where
  "process_loop v sf today [] processed = Inr processed"
| "process_loop v sf today (order # orders) processed =
     or_raise (process_order v sf today order)
       (\<lambda>r. process_loop v sf today orders
               (case r of None \<Rightarrow> processed | Some row \<Rightarrow> processed @ [row]))"

text \<open>\<^verbatim>\<open>process_orders_dataframe\<close>; \<^verbatim>\<open>today\<close> is the date read from the clock in the
  display time zone. The data frame is the list \<^verbatim>\<open>processed\<close>.\<close>

definition process_orders_dataframe ::
  "variant \<Rightarrow> (string \<Rightarrow> rat option) \<Rightarrow> date \<Rightarrow> pyval list \<Rightarrow> py_error + order_row list" where
  "process_orders_dataframe v sf today orders = process_loop v sf today orders []"

section \<open>Paginated fetcher\<close>

definition API_MAX_RETRIES :: nat where
  "API_MAX_RETRIES = 3"

definition API_RETRY_DELAY :: rat where
  "API_RETRY_DELAY = 1"

definition SALES_ORDER_FIELDS :: "string list" where
  "SALES_ORDER_FIELDS =
     [''Id'', ''Reference'', ''ProjectName'', ''Company'',
      ''CreatedDate'', ''ModifiedDate'',
      ''Stage'', ''Status'', ''BranchId'',
      ''EstimatedDeliveryDate'', ''DispatchedDate'',
      ''IsVoid'', ''LineItems'',
      ''DistributionBranchId'', ''DistributionBranch'']"

subsection \<open>The remote source and what the run leaves behind\<close>

text \<open>The query parameters of one request.\<close>

record params =
  p_fields :: string
  p_order :: string
  p_page :: nat
  p_rows :: nat
  p_where :: "string option"

text \<open>
  What \<^verbatim>\<open>requests.get\<close> does on one attempt: a response with its status code, its
  text and its decoded body (\<open>Inl\<close> when \<^verbatim>\<open>response.json()\<close> fails), or one of the
  exceptions the source catches. A failed decoding is a
  \<^verbatim>\<open>requests.exceptions.JSONDecodeError\<close>, a \<^verbatim>\<open>RequestException\<close> since requests 2.27.
\<close>

datatype outcome =
    Response nat string "string + pyval"
  | Timeout
  | ConnectionError
  | RequestException string

text \<open>
  The remote source answers a request by its position in the run (the number of
  requests sent before it), its path and its parameters, so it may answer the same
  page differently on a retry. \<open>credentials\<close> says whether the secrets hold the user
  name and the key.
\<close>

record remote_env =
  credentials :: bool
  remote :: "nat \<Rightarrow> string \<Rightarrow> params \<Rightarrow> outcome"

text \<open>The value of \<^verbatim>\<open>last_error\<close>, by the message it formats.\<close>

datatype api_error =
    HttpError nat string
  | TimedOut
  | CouldNotConnect
  | RequestFailed string

text \<open>The calls of \<^verbatim>\<open>st.error\<close> and \<^verbatim>\<open>st.warning\<close>, by the message shown.\<close>

datatype ui_message =
    CredentialsMissing
  | AuthenticationFailed
  | AccessDenied
  | ApiError nat "api_error option"
  | PageLimitWarning

text \<open>The effects of a run: the requests sent, the waits of \<^verbatim>\<open>time.sleep\<close> and the
  messages shown, each in order.\<close>

record io_state =
  sent :: "(string \<times> params) list"
  slept :: "rat list"
  shown :: "ui_message list"

definition send :: "string \<Rightarrow> params \<Rightarrow> io_state \<Rightarrow> io_state" where
  "send path ps st = st\<lparr>sent := sent st @ [(path, ps)]\<rparr>"

definition sleep :: "rat \<Rightarrow> io_state \<Rightarrow> io_state" where
  "sleep secs st = st\<lparr>slept := slept st @ [secs]\<rparr>"

definition show_message :: "ui_message \<Rightarrow> io_state \<Rightarrow> io_state" where
  "show_message m st = st\<lparr>shown := shown st @ [m]\<rparr>"

subsection \<open>\<^verbatim>\<open>request_json\<close>\<close>

text \<open>
  The body of \<^verbatim>\<open>for attempt in range(API_MAX_RETRIES)\<close>, over the attempt numbers
  still to run, and what follows the loop.
  \<^verbatim>\<open>
  if response.status_code == 200:
      return response.json()
  elif response.status_code == 401:
      st.error("**Authentication Failed** ..."); st.stop()
  elif response.status_code == 403:
      st.error("**Access Denied** ..."); st.stop()
  elif response.status_code == 429:
      wait_time = API_RETRY_DELAY * (attempt + 1) * 2
      time.sleep(wait_time)
      continue
  else:
      last_error = f"HTTP {response.status_code}: {response.text[:500]}"
  \<close>
  and, after the \<^verbatim>\<open>except\<close> clauses have set \<^verbatim>\<open>last_error\<close>,
  \<^verbatim>\<open>
  if attempt < API_MAX_RETRIES - 1:
      time.sleep(API_RETRY_DELAY * (attempt + 1))
  \<close>
\<close>

definition after_failure :: "nat \<Rightarrow> io_state \<Rightarrow> io_state" where
  "after_failure attempt st =
     (if attempt < API_MAX_RETRIES - 1 then sleep (API_RETRY_DELAY * of_nat (attempt + 1)) st else st)"

fun attempts ::
  "remote_env \<Rightarrow> string \<Rightarrow> params \<Rightarrow> bool \<Rightarrow> nat list \<Rightarrow> api_error option \<Rightarrow> io_state
     \<Rightarrow> (py_error + pyval) \<times> io_state" where
  "attempts env path ps suppress_error [] last_error st =
     (Inr PNone, if suppress_error then st else show_message (ApiError API_MAX_RETRIES last_error) st)"
| "attempts env path ps suppress_error (attempt # rest) last_error st =
     (case remote env (length (sent st)) path ps of
        Response status_code txt body \<Rightarrow>
          if status_code = 200 then
            (case body of
               Inr v \<Rightarrow> (Inr v, send path ps st)
             | Inl msg \<Rightarrow> attempts env path ps suppress_error rest (Some (RequestFailed msg))
                            (after_failure attempt (send path ps st)))
          else if status_code = 401 then
            (Inl StopException, show_message AuthenticationFailed (send path ps st))
          else if status_code = 403 then
            (Inl StopException, show_message AccessDenied (send path ps st))
          else if status_code = 429 then
            attempts env path ps suppress_error rest last_error
              (sleep (API_RETRY_DELAY * of_nat (attempt + 1) * 2) (send path ps st))
          else
            attempts env path ps suppress_error rest (Some (HttpError status_code (take 500 txt)))
              (after_failure attempt (send path ps st))
      | Timeout \<Rightarrow>
          attempts env path ps suppress_error rest (Some TimedOut)
            (after_failure attempt (send path ps st))
      | ConnectionError \<Rightarrow>
          attempts env path ps suppress_error rest (Some CouldNotConnect)
            (after_failure attempt (send path ps st))
      | RequestException msg \<Rightarrow>
          attempts env path ps suppress_error rest (Some (RequestFailed msg))
            (after_failure attempt (send path ps st)))"

text \<open>\<^verbatim>\<open>request_json(path, params, suppress_error)\<close>. \<^verbatim>\<open>get_api_credentials\<close> shows
  an error and stops the script when a secret is missing; the path gets its leading
  slash.\<close>

definition request_json ::
  "remote_env \<Rightarrow> string \<Rightarrow> params \<Rightarrow> bool \<Rightarrow> io_state \<Rightarrow> (py_error + pyval) \<times> io_state" where
  "request_json env path ps suppress_error st =
     (if \<not> credentials env then (Inl StopException, show_message CredentialsMissing st)
      else attempts env (if take 1 path = ''/'' then path else ''/'' @ path) ps suppress_error
             [0..<API_MAX_RETRIES] None st)"

subsection \<open>\<^verbatim>\<open>fetch_sales_orders\<close>\<close>

text \<open>\<^verbatim>\<open>sep.join(xs)\<close>.\<close>

fun join :: "string \<Rightarrow> string list \<Rightarrow> string" where
  "join sep [] = []"
| "join sep [x] = x"
| "join sep (x # y # ys) = x @ sep @ join sep (y # ys)"

text \<open>\<^verbatim>\<open>build_where_clause\<close>: one \<^verbatim>\<open>Stage<>'...'\<close> condition per excluded stage, joined
  by \<^verbatim>\<open>" AND "\<close>; no condition gives the empty string.\<close>

definition build_where_clause :: "string list \<Rightarrow> string" where
  "build_where_clause excluded_stages =
     (let conditions = map (\<lambda>stage. ''Stage<>'' @ [CHR 0x27] @ stage @ [CHR 0x27]) excluded_stages
      in if conditions \<noteq> [] then join '' AND '' conditions else [])"

text \<open>
  The records of one response; \<open>None\<close> is the \<^verbatim>\<open>break\<close> on a body that is neither a
  list nor a \<^verbatim>\<open>dict\<close>.
  \<^verbatim>\<open>
  if isinstance(response, list):
      orders = response
  elif isinstance(response, dict):
      orders = response.get("data", response.get("Data", []))
      if not isinstance(orders, list):
          orders = [response] if response.get("Id") else []
  else:
      break
  \<close>
\<close>

fun response_orders :: "pyval \<Rightarrow> pyval list option" where
  "response_orders (PList xs) = Some xs"
| "response_orders (PDict d) =
     (case dict_get_default d ''data'' (dict_get_default d ''Data'' (PList [])) of
        PList xs \<Rightarrow> Some xs
      | _ \<Rightarrow> Some (if truthy (dict_get d ''Id'') then [PDict d] else []))"
| "response_orders v = None"

definition rows_per_page :: nat where
  "rows_per_page = 250"

definition page_params :: "string \<Rightarrow> string \<Rightarrow> string \<Rightarrow> nat \<Rightarrow> params" where
  "page_params flds order_by where_clause page =
     \<lparr>p_fields = flds, p_order = order_by, p_page = page, p_rows = rows_per_page,
      p_where = (if where_clause \<noteq> [] then Some where_clause else None)\<rparr>"

text \<open>
  The \<^verbatim>\<open>while True\<close> loop from the state \<^verbatim>\<open>(page, all_orders)\<close>; the result is
  \<^verbatim>\<open>all_orders\<close> when the loop is left, or the exception that left the function.
  \<^verbatim>\<open>
  response = request_json("/SalesOrders", params)
  if response is None: break
  ...
  if not orders: break
  all_orders.extend(orders)
  if len(orders) < rows_per_page: break
  page += 1
  if page > 100:
      st.warning("Reached maximum page limit (100). ..."); break
  \<close>
\<close>

function fetch_pages ::
  "remote_env \<Rightarrow> string \<Rightarrow> string \<Rightarrow> string \<Rightarrow> nat \<Rightarrow> pyval list \<Rightarrow> io_state
     \<Rightarrow> (py_error + pyval list) \<times> io_state" where
  "fetch_pages env flds order_by where_clause page all_orders st =
     (case request_json env ''/SalesOrders'' (page_params flds order_by where_clause page) False st of
        (Inl e, st1) \<Rightarrow> (Inl e, st1)
      | (Inr response, st1) \<Rightarrow>
          if response = PNone then (Inr all_orders, st1)
          else (case response_orders response of
                  None \<Rightarrow> (Inr all_orders, st1)
                | Some orders \<Rightarrow>
                    if orders = [] then (Inr all_orders, st1)
                    else if length orders < rows_per_page then (Inr (all_orders @ orders), st1)
                    else if page + 1 > 100
                      then (Inr (all_orders @ orders), show_message PageLimitWarning st1)
                      else fetch_pages env flds order_by where_clause (page + 1)
                             (all_orders @ orders) st1))"
  by pat_completeness auto
termination
  by (relation "measure (\<lambda>(env, flds, order_by, where_clause, page, all_orders, st). 101 - page)") auto

declare fetch_pages.simps [simp del]

text \<open>
  \<^verbatim>\<open>fetch_sales_orders(excluded_stages)\<close>, run without a cached result: the loop from
  page 1, then \<^verbatim>\<open>process_orders_dataframe(all_orders)\<close>, or the empty frame when nothing
  was fetched.
\<close>

definition fetch_sales_orders ::
  "variant \<Rightarrow> (string \<Rightarrow> rat option) \<Rightarrow> date \<Rightarrow> remote_env \<Rightarrow> string list \<Rightarrow> io_state
     \<Rightarrow> (py_error + order_row list) \<times> io_state" where
  "fetch_sales_orders v sf today env excluded_stages st =
     (case fetch_pages env (join '','' SALES_ORDER_FIELDS)
             ''EstimatedDeliveryDate ASC, CreatedDate ASC''
             (build_where_clause excluded_stages) 1 [] st of
        (Inl e, st1) \<Rightarrow> (Inl e, st1)
      | (Inr all_orders, st1) \<Rightarrow>
          (if all_orders = [] then Inr [] else process_orders_dataframe v sf today all_orders, st1))"

section \<open>Board partitioner\<close>

text \<open>
  A data frame is the list of its rows. \<^verbatim>\<open>sort_values\<close> on one column puts the rows
  without a value last; pandas' default sort does not fix the order of rows with equal
  keys, and the model takes the order of insertion sort. What a renderer draws is the
  list of its sections, each a title with the rows of its cards in order; a run of a
  renderer leaves the sections drawn and, when an exception ended it, the exception.
\<close>

type_synonym drawn = "(string \<times> order_row list) list \<times> py_error option"

definition datetime_key :: "datetime \<Rightarrow> nat \<times> nat \<times> nat \<times> nat \<times> nat \<times> nat \<times> nat" where
  "datetime_key t = (year t, month t, day t, hour t, minute t, second t, microsecond t)"

definition sort_values ::
  "(order_row \<Rightarrow> ('k :: linorder) option) \<Rightarrow> bool \<Rightarrow> order_row list \<Rightarrow> order_row list" where
  "sort_values col ascending df =
     (let present = filter (\<lambda>r. col r \<noteq> None) df;
          missing = filter (\<lambda>r. col r = None) df;
          sorted_rows = sort_key (\<lambda>r. the (col r)) present
      in (if ascending then sorted_rows else rev sorted_rows) @ missing)"

definition eta_col :: "order_row \<Rightarrow> (nat \<times> nat \<times> nat \<times> nat \<times> nat \<times> nat \<times> nat) option" where
  "eta_col r = map_option datetime_key (EstimatedDeliveryDate r)"

definition created_col :: "order_row \<Rightarrow> (nat \<times> nat \<times> nat \<times> nat \<times> nat \<times> nat \<times> nat) option" where
  "created_col r = map_option datetime_key (CreatedDate r)"

text \<open>The key of a column sorted ascending among other columns: rows without a value
  after the others.\<close>

definition na_last :: "'k option \<Rightarrow> bool \<times> 'k option" where
  "na_last k = (k = None, k)"

text \<open>The stage shown as in progress: \<^verbatim>\<open>"Processing"\<close> in \<^verbatim>\<open>app.py\<close>,
  \<^verbatim>\<open>"Workshop - Processing"\<close> in \<^verbatim>\<open>test.py\<close>.\<close>

fun processing_stage :: "variant \<Rightarrow> string" where
  "processing_stage AppPy = ''Processing''"
| "processing_stage TestPy = ''Workshop - Processing''"

fun working_on_title :: "variant \<Rightarrow> string" where
  "working_on_title AppPy = ''Currently Working On''"
| "working_on_title TestPy = ''Currently in Workshop''"

subsection \<open>Cards\<close>

text \<open>
  A missing date reaches a card as \<^verbatim>\<open>None\<close> when its column has dtype \<^verbatim>\<open>object\<close>, and as
  \<^verbatim>\<open>NaT\<close> when \<^verbatim>\<open>pd.DataFrame(processed)\<close> gave the column the dtype \<^verbatim>\<open>datetime64\<close>, as it
  does for a column that holds dates within the range of that dtype; a selection of rows
  keeps the dtypes of the frame it is taken from. The dtypes of the two date columns that
  the cards read are a parameter of the renderers.
\<close>

record date_dtypes =
  eta_datetime64 :: bool
  created_datetime64 :: bool

text \<open>
  \<^verbatim>\<open>render_job_card(job)\<close>, as far as it can fail; the card is the row it shows. In
  \<^verbatim>\<open>app.py\<close>:
  \<^verbatim>\<open>
  if job["EstimatedDeliveryDate"]:
      due_dt = job["EstimatedDeliveryDate"]
      if hasattr(due_dt, 'strftime'):
          due_date_str = f'ETD: {due_dt.strftime("%d %b %Y")}'
  \<close>
  and the same for \<^verbatim>\<open>CreatedDate\<close>. \<^verbatim>\<open>NaT\<close> is truthy and has the attribute, and its
  \<^verbatim>\<open>strftime\<close> raises \<^verbatim>\<open>ValueError\<close>; \<^verbatim>\<open>None\<close> is falsy. In \<^verbatim>\<open>test.py\<close> the test is
  \<^verbatim>\<open>if pd.notna(due_dt) and hasattr(due_dt, 'strftime')\<close>, which is false for both.
\<close>

fun render_job_card :: "variant \<Rightarrow> date_dtypes \<Rightarrow> order_row \<Rightarrow> py_error + order_row" where
  "render_job_card AppPy dtypes job =
     (if EstimatedDeliveryDate job = None \<and> eta_datetime64 dtypes then Inl ValueError
      else if CreatedDate job = None \<and> created_datetime64 dtypes then Inl ValueError
      else Inr job)"
| "render_job_card TestPy dtypes job = Inr job"

text \<open>
  The loop that every renderer runs before it draws, and the drawing:
  \<^verbatim>\<open>
  cards_html = ""
  for _, job in jobs_df.iterrows():
      cards_html += render_job_card(job)
  st.markdown(...)
  \<close>
\<close>

fun render_cards :: "variant \<Rightarrow> date_dtypes \<Rightarrow> order_row list \<Rightarrow> py_error + order_row list" where
  "render_cards v dtypes [] = Inr []"
| "render_cards v dtypes (job # jobs) =
     or_raise (render_job_card v dtypes job)
       (\<lambda>card. or_raise (render_cards v dtypes jobs) (\<lambda>cards. Inr (card # cards)))"

definition cards_section :: "variant \<Rightarrow> date_dtypes \<Rightarrow> string \<Rightarrow> order_row list \<Rightarrow> drawn" where
  "cards_section v dtypes title jobs_df =
     (case render_cards v dtypes jobs_df of
        Inl e \<Rightarrow> ([], Some e)
      | Inr cards \<Rightarrow> ([(title, cards)], None))"

text \<open>One renderer after another: the second runs when the first raised nothing.\<close>

fun then_render :: "drawn \<Rightarrow> drawn \<Rightarrow> drawn" where
  "then_render (sections, Some e) next_run = (sections, Some e)"
| "then_render (sections, None) (later, raised) = (sections @ later, raised)"

subsection \<open>Sections\<close>

text \<open>\<^verbatim>\<open>render_board_column(title, emoji, jobs_df, column_class)\<close>: drawn also when empty.\<close>

definition render_board_column :: "variant \<Rightarrow> date_dtypes \<Rightarrow> string \<Rightarrow> order_row list \<Rightarrow> drawn" where
  "render_board_column v dtypes title jobs_df = cards_section v dtypes title jobs_df"

text \<open>
  \<^verbatim>\<open>
  processing_df = df[df["Stage"] == "Processing"]
  if processing_df.empty: return
  processing_df = processing_df.sort_values(
      by=["IsOverdue", "IsDueSoon", "EstimatedDeliveryDate"], ascending=[False, False, True])
  \<close>
\<close>

definition render_currently_working_on :: "variant \<Rightarrow> date_dtypes \<Rightarrow> order_row list \<Rightarrow> drawn" where
  "render_currently_working_on v dtypes df =
     (let processing_df = filter (\<lambda>r. Stage r = PStr (processing_stage v)) df
      in if processing_df = [] then ([], None)
         else cards_section v dtypes (working_on_title v)
                (sort_key (\<lambda>r. (\<not> IsOverdue r, \<not> IsDueSoon r, na_last (eta_col r))) processing_df))"

text \<open>
  The three renderers that only \<^verbatim>\<open>test.py\<close> has.
  \<^verbatim>\<open>
  overdue_df = df[df["IsOverdue"]]
  if overdue_df.empty: return
  overdue_df = overdue_df.sort_values(by=["DaysOverdue"], ascending=False)
  \<close>
\<close>

definition render_overdue :: "date_dtypes \<Rightarrow> order_row list \<Rightarrow> drawn" where
  "render_overdue dtypes df =
     (let overdue_df = filter IsOverdue df
      in if overdue_df = [] then ([], None)
         else cards_section TestPy dtypes ''Overdue'' (sort_values DaysOverdue False overdue_df))"

text \<open>
  \<^verbatim>\<open>
  no_etd_df = df[~df["IsOverdue"] & ~df["IsDueSoon"] & ~df["IsOnTrack"]]
  if no_etd_df.empty: return
  no_etd_df = no_etd_df.sort_values(by=["CreatedDate"], ascending=True)
  \<close>
\<close>

definition render_needs_etd :: "date_dtypes \<Rightarrow> order_row list \<Rightarrow> drawn" where
  "render_needs_etd dtypes df =
     (let no_etd_df = filter (\<lambda>r. \<not> IsOverdue r \<and> \<not> IsDueSoon r \<and> \<not> IsOnTrack r) df
      in if no_etd_df = [] then ([], None)
         else cards_section TestPy dtypes ''Needs ETD'' (sort_values created_col True no_etd_df))"

text \<open>
  \<^verbatim>\<open>
  to_collect_df = df[df["Stage"] == "Workshop - To Collect"]
  if to_collect_df.empty: return
  to_collect_df = to_collect_df.sort_values(
      by=["EstimatedDeliveryDate", "CreatedDate"], ascending=[True, True])
  \<close>
\<close>

definition render_to_collect :: "date_dtypes \<Rightarrow> order_row list \<Rightarrow> drawn" where
  "render_to_collect dtypes df =
     (let to_collect_df = filter (\<lambda>r. Stage r = PStr ''Workshop - To Collect'') df
      in if to_collect_df = [] then ([], None)
         else cards_section TestPy dtypes ''To Collect''
                (sort_key (\<lambda>r. (na_last (eta_col r), na_last (created_col r))) to_collect_df))"

subsection \<open>\<^verbatim>\<open>render_board\<close>\<close>


text \<open>The titles of the sections drawn that hold a row.\<close>

definition sections_with :: "order_row \<Rightarrow> (string \<times> order_row list) list \<Rightarrow> string list" where
  "sections_with r board = map fst (filter (\<lambda>g. r \<in> set (snd g)) board)"

section \<open>The specification's terms and sample inputs\<close>

text \<open>
  The urgency of the specification, written from its state machine: evaluated only with
  an estimated delivery date and when not dispatched, on the days until due, with the
  threshold of 7 days; \<open>NoDate\<close> otherwise. The second component is \<open>daysOverdue\<close>.
\<close>

datatype urgency = Overdue | DueSoon | OnTrack | NoDate

definition spec_urgency :: "date \<Rightarrow> datetime option \<Rightarrow> bool \<Rightarrow> urgency \<times> int option" where
  "spec_urgency today estimatedDeliveryAt dispatched =
     (case estimatedDeliveryAt of
        None \<Rightarrow> (NoDate, None)
      | Some eta \<Rightarrow>
          if dispatched then (NoDate, None)
          else let daysUntilDue = toordinal (date_of eta) - toordinal today in
               if daysUntilDue < 0 then (Overdue, Some (- daysUntilDue))
               else if 0 \<le> daysUntilDue \<and> daysUntilDue \<le> 7 then (DueSoon, None)
               else (OnTrack, None))"

text \<open>The urgency a row's three flags stand for; \<open>None\<close> when more than one is set.\<close>

definition row_urgency :: "order_row \<Rightarrow> urgency option" where
  "row_urgency r =
     (if IsOverdue r \<and> \<not> IsDueSoon r \<and> \<not> IsOnTrack r then Some Overdue
      else if \<not> IsOverdue r \<and> IsDueSoon r \<and> \<not> IsOnTrack r then Some DueSoon
      else if \<not> IsOverdue r \<and> \<not> IsDueSoon r \<and> IsOnTrack r then Some OnTrack
      else if \<not> IsOverdue r \<and> \<not> IsDueSoon r \<and> \<not> IsOnTrack r then Some NoDate
      else None)"

definition row_dispatched :: "order_row \<Rightarrow> bool" where
  "row_dispatched r = (Stage r = PStr ''Dispatched'' \<or> DispatchedDate r \<noteq> None)"

text \<open>A record whose void flag is truthy.\<close>

definition void_record :: "pyval \<Rightarrow> bool" where
  "void_record order = (case order of PDict d \<Rightarrow> truthy (is_void d) | _ \<Rightarrow> False)"


text \<open>A record due three days before the current date, in progress in either file.\<close>

definition today0 :: date where
  "today0 = \<lparr>d_year = 2024, d_month = 3, d_day = 15\<rparr>"

definition late_order :: pyval where
  "late_order = PDict [(''Id'', PInt 1), (''stage'', PStr ''Workshop - Processing''),
                       (''DistributionBranchId'', PInt 6877),
                       (''EstimatedDeliveryDate'', PStr ''2024-03-12T09:30:00Z''),
                       (''LineItems'', PList [PDict [(''Qty'', PInt 0), (''UomQtyOrdered'', PInt 7)]])]"

definition late_row :: order_row where
  "late_row = \<lparr>Id_col = PInt 1, Reference = PStr [], ProjectName = PStr [], Company = PStr [],
     CreatedDate = None, ModifiedDate = None, Stage = PStr ''Workshop - Processing'', Status = PStr [],
     BranchId = PNone,
     EstimatedDeliveryDate = Some \<lparr>year = 2024, month = 3, day = 12, hour = 9, minute = 30, second = 0, microsecond = 0\<rparr>,
     DispatchedDate = None, LineCount = 1, QtyTotal = 7, SizeBucket = ''S'', WorkloadScore = 17 / 10,
     IsOverdue = True, IsDueSoon = False, IsOnTrack = False, DaysOverdue = Some 3, HasLineItems = True\<rparr>"


text \<open>Records with one field under both casings.\<close>

definition zero_branch_order :: "(string \<times> pyval) list" where
  "zero_branch_order = [(''BranchId'', PInt 0), (''branchId'', PInt 5)]"

definition both_cases_order :: "(string \<times> pyval) list" where
  "both_cases_order = [(''Reference'', PStr ''SO-1''), (''reference'', PStr ''other'')]"

text \<open>A void record that would otherwise be kept.\<close>

definition void_order :: pyval where
  "void_order = PDict [(''Id'', PInt 2), (''isVoid'', PBool True), (''Stage'', PStr ''Workshop - New''),
                       (''DistributionBranchId'', PInt 6877)]"





text \<open>
  The terms of the fetcher's claims. A transient failure of one attempt, with the error
  the source records for it: a time-out, a connection failure, another request
  exception (an undecodable body among them) or a status other than 200, 401, 403 and
  429.
\<close>

fun transient_error :: "outcome \<Rightarrow> api_error option" where
  "transient_error (Response status_code txt body) =
     (if status_code = 200 then (case body of Inl msg \<Rightarrow> Some (RequestFailed msg) | Inr v \<Rightarrow> None)
      else if status_code = 401 \<or> status_code = 403 \<or> status_code = 429 then None
      else Some (HttpError status_code (take 500 txt)))"
| "transient_error Timeout = Some TimedOut"
| "transient_error ConnectionError = Some CouldNotConnect"
| "transient_error (RequestException msg) = Some (RequestFailed msg)"

text \<open>An authentication or authorization failure, with the message the source shows.\<close>

fun auth_message :: "outcome \<Rightarrow> ui_message option" where
  "auth_message (Response status_code txt body) =
     (if status_code = 401 then Some AuthenticationFailed
      else if status_code = 403 then Some AccessDenied else None)"
| "auth_message other = None"

text \<open>What the remote source answered to the \<open>k\<close>-th request of a run.\<close>

definition received :: "remote_env \<Rightarrow> io_state \<Rightarrow> nat \<Rightarrow> outcome" where
  "received env st k = remote env k (fst (sent st ! k)) (snd (sent st ! k))"

text \<open>The remote source answers the \<open>k\<close>-th request of the run, for these parameters,
  with status 200 and this list of records.\<close>

definition serves_page :: "remote_env \<Rightarrow> nat \<Rightarrow> params \<Rightarrow> pyval list \<Rightarrow> bool" where
  "serves_page env k ps orders =
     (case remote env k ''/SalesOrders'' ps of
        Response status_code txt (Inr body) \<Rightarrow> status_code = 200 \<and> body = PList orders
      | _ \<Rightarrow> False)"

text \<open>The parameters \<^verbatim>\<open>fetch_sales_orders\<close> sends for a page.\<close>

definition sales_orders_params :: "string list \<Rightarrow> nat \<Rightarrow> params" where
  "sales_orders_params excluded_stages page =
     page_params (join '','' SALES_ORDER_FIELDS) ''EstimatedDeliveryDate ASC, CreatedDate ASC''
       (build_where_clause excluded_stages) page"

text \<open>
  The request for one page as the specification has it: the listing of sales orders,
  250 rows a page, with the projection, the ordering and the filter of the excluded
  stages written out.
\<close>

definition stage_filter :: "string list \<Rightarrow> string option" where
  "stage_filter excluded_stages =
     (if excluded_stages = [] then None
      else Some (join '' AND '' (map (\<lambda>stage. ''Stage<>'' @ [CHR 0x27] @ stage @ [CHR 0x27]) excluded_stages)))"

definition page_request :: "string option \<Rightarrow> nat \<Rightarrow> string \<times> params" where
  "page_request stages page =
     (''/SalesOrders'',
      \<lparr>p_fields = ''Id,Reference,ProjectName,Company,CreatedDate,ModifiedDate,Stage,Status,BranchId,EstimatedDeliveryDate,DispatchedDate,IsVoid,LineItems,DistributionBranchId,DistributionBranch'',
       p_order = ''EstimatedDeliveryDate ASC, CreatedDate ASC'',
       p_page = page, p_rows = 250, p_where = stages\<rparr>)"

text \<open>
  The records of a page, for every response the fetcher reads as one: a bare sequence of
  records; an envelope with the sequence under \<^verbatim>\<open>data\<close> or, without that key, under
  \<^verbatim>\<open>Data\<close>; an envelope with neither key, which holds no records; and an envelope whose
  value under the key is no sequence, which is itself the one record when it has a truthy
  \<^verbatim>\<open>Id\<close> and holds no records otherwise.
\<close>

definition single_record :: "(string \<times> pyval) list \<Rightarrow> pyval list" where
  "single_record envelope =
     (case map_of envelope ''Id'' of
        None \<Rightarrow> []
      | Some record_id \<Rightarrow> if truthy record_id then [PDict envelope] else [])"

fun page_records :: "pyval \<Rightarrow> pyval list option" where
  "page_records (PList records) = Some records"
| "page_records (PDict envelope) =
     (case map_of envelope ''data'' of
        Some (PList records) \<Rightarrow> Some records
      | Some other \<Rightarrow> Some (single_record envelope)
      | None \<Rightarrow>
          (case map_of envelope ''Data'' of
             Some (PList records) \<Rightarrow> Some records
           | Some other \<Rightarrow> Some (single_record envelope)
           | None \<Rightarrow> Some []))"
| "page_records other = None"

text \<open>The remote source answers the \<open>k\<close>-th request of the run, when it is this
  request, with status 200 and a page of these records.\<close>

definition answers_page :: "remote_env \<Rightarrow> nat \<Rightarrow> string \<times> params \<Rightarrow> pyval list \<Rightarrow> bool" where
  "answers_page env k request records =
     (case remote env k (fst request) (snd request) of
        Response status_code txt (Inr body) \<Rightarrow> status_code = 200 \<and> page_records body = Some records
      | _ \<Rightarrow> False)"

text \<open>
  Sample runs, from a state without effects: a source that holds 540 records and answers
  each request with the rows of the page asked for, the second page in an envelope, so
  with pages of 250, 250 and 40 records when asked for 250 rows a page; one that answers
  403 after a full first page; one whose second page times out, answers 503 and then
  refuses the connection.
\<close>

definition io0 :: io_state where
  "io0 = \<lparr>sent = [], slept = [], shown = []\<rparr>"

definition paged_env :: remote_env where
  "paged_env =
     \<lparr>credentials = True,
      remote = (\<lambda>k path ps.
        let records = replicate (min (p_rows ps) (540 - (p_page ps - 1) * p_rows ps)) late_order
        in Response 200 [] (Inr (if p_page ps = 2 then PDict [(''Data'', PList records)] else PList records)))\<rparr>"

definition forbidden_env :: remote_env where
  "forbidden_env =
     \<lparr>credentials = True,
      remote = (\<lambda>k path ps.
        if p_page ps = 1 then Response 200 [] (Inr (PList (replicate 250 late_order)))
        else Response 403 ''Forbidden'' (Inl ''no JSON''))\<rparr>"

definition failing_env :: remote_env where
  "failing_env =
     \<lparr>credentials = True,
      remote = (\<lambda>k path ps.
        if p_page ps = 1 then Response 200 [] (Inr (PList (replicate 250 late_order)))
        else if k = 1 then Timeout
        else if k = 2 then Response 503 ''Service Unavailable'' (Inl ''no JSON'')
        else ConnectionError)\<rparr>"







text \<open>Texts of decimal digits, as \<^verbatim>\<open>isoformat\<close> writes the fields of a timestamp.\<close>

definition digits :: "string \<Rightarrow> bool" where
  "digits s = (\<forall>c \<in> set s. \<exists>a<10. c = digit_char a)"

text \<open>The timestamp of \<^verbatim>\<open>2024-03-12T09:30:00Z\<close>.\<close>

definition sample_timestamp :: datetime where
  "sample_timestamp = \<lparr>year = 2024, month = 3, day = 12, hour = 9, minute = 30, second = 0, microsecond = 0\<rparr>"


section \<open>Properties\<close>

subsection \<open>Exceptions, fields and evaluation\<close>

lemma or_raise_Inr [simp]: "or_raise (Inr v) f = f v"
  by (simp add: or_raise_def)

lemma or_raise_Inl [simp]: "or_raise (Inl e) f = Inl e"
  by (simp add: or_raise_def)

lemma or_raise_eq_Inr: "or_raise m f = Inr y \<longleftrightarrow> (\<exists>x. m = Inr x \<and> f x = Inr y)"
  by (cases m) simp_all

lemma get_field_Cons: "get_field d (c # cs) = Inr (py_or (dict_get d (c # cs)) (dict_get d (lower_char c # cs)))"
  by (simp add: get_field_def py_or_def)

lemma stage_of_Inr: "\<exists>s. stage_of v d = Inr s"
  by (cases v) (simp_all add: get_field_Cons)

lemma build_row_flags:
  assumes "build_row v sf today d = Inr row"
  shows "(IsOverdue row, IsDueSoon row, IsOnTrack row, DaysOverdue row)
         = status_flags today (EstimatedDeliveryDate row) (row_dispatched row)"
proof -
  obtain s where s: "stage_of v d = Inr s" using stage_of_Inr by blast
  from assms show ?thesis
    unfolding build_row_def row_dispatched_def
    by (auto simp: get_field_Cons s Let_def or_raise_eq_Inr split: prod.splits)
qed

lemma process_order_Some:
  "process_order v sf today order = Inr (Some row) \<Longrightarrow>
     \<exists>d. order = PDict d \<and> \<not> truthy (is_void d) \<and> included v d = Inr True \<and> build_row v sf today d = Inr row"
  unfolding process_order_def
  by (cases order) (auto simp: or_raise_eq_Inr split: if_splits)

lemma status_flags_spec:
  "status_flags today eta disp = (a, b, c, d) \<Longrightarrow>
     row_urgency (r\<lparr>IsOverdue := a, IsDueSoon := b, IsOnTrack := c\<rparr>) = Some (fst (spec_urgency today eta disp))
     \<and> d = snd (spec_urgency today eta disp)"
  unfolding status_flags_def spec_urgency_def row_urgency_def DUE_SOON_DAYS_def
  by (auto simp: Let_def split: option.splits if_splits)

text \<open>Facts that evaluate the model on concrete records.\<close>

lemma upt_numeral: "[m..<numeral k] = (if m < numeral k then m # [Suc m..<numeral k] else [])"
  by (simp add: upt_rec)

lemma char_of_eq_char: "(char_of (n :: nat) = c) = (n mod 256 = of_char c)"
  by (simp add: char_of_eq_iff take_bit_eq_mod)

lemma char_eq_char_of: "(c = char_of (n :: nat)) = (n mod 256 = of_char c)"
  using char_of_eq_char [of n c] by auto

lemmas date_eval = datetime_new_def days_in_month_def is_leap_def strptime_def
  directive_regex_def digit_value_def py_int_def group_int_def date_formats_def lower_char_def
  toordinal_def date_of_def days_before_year_def days_before_month_def
  char_of_eq_char char_eq_char_of

lemmas row_eval = process_orders_dataframe_def process_order_def build_row_def is_void_def
  py_or_def dict_get_def get_field_def line_metrics_def item_qty_def size_bucket_def
  status_flags_def DUE_SOON_DAYS_def DISTRIBUTION_BRANCH_ID_def WORKSHOP_STAGE_PREFIX_def
  lower_char_def char_of_eq_char char_eq_char_of

lemma late_order_parse:
  "parse_date (PStr ''2024-03-12T09:30:00Z'') =
     Some \<lparr>year = 2024, month = 3, day = 12, hour = 9, minute = 30, second = 0, microsecond = 0\<rparr>"
  by (simp add: date_eval)

lemma late_order_days:
  "toordinal \<lparr>d_year = 2024, d_month = 3, d_day = 12\<rparr> = 738957"
  "toordinal today0 = 738960"
  by (simp_all add: date_eval today0_def upt_numeral)

lemma late_order_row: "process_order v sf today0 late_order = Inr (Some late_row)"
  by (cases v) (simp_all add: late_order_def late_row_def row_eval late_order_parse late_order_days date_of_def Let_def
      del: parse_date.simps(3))

subsection \<open>Urgency\<close>

text \<open>Every row of the data frame was built from one of the records.\<close>

lemma process_loop_rows:
  "process_loop v sf today orders processed = Inr df \<Longrightarrow> r \<in> set df \<Longrightarrow>
     r \<in> set processed \<or> (\<exists>order \<in> set orders. process_order v sf today order = Inr (Some r))"
proof (induction orders arbitrary: processed)
  case Nil
  then show ?case by simp
next
  case (Cons order orders)
  from Cons.prems(1) obtain res where res: "process_order v sf today order = Inr res"
    and rest: "process_loop v sf today orders (case res of None \<Rightarrow> processed | Some row \<Rightarrow> processed @ [row]) = Inr df"
    by (auto simp: or_raise_eq_Inr)
  from Cons.IH [OF rest Cons.prems(2)] res show ?case
    by (cases res) auto
qed

lemma dataframe_rows:
  "process_orders_dataframe v sf today orders = Inr df \<Longrightarrow> r \<in> set df \<Longrightarrow>
     \<exists>order \<in> set orders. process_order v sf today order = Inr (Some r)"
  unfolding process_orders_dataframe_def by (drule (1) process_loop_rows) simp

lemma process_order_flags:
  assumes "process_order v sf today order = Inr (Some row)"
  shows "row_urgency row = Some (fst (spec_urgency today (EstimatedDeliveryDate row) (row_dispatched row)))"
    and "DaysOverdue row = snd (spec_urgency today (EstimatedDeliveryDate row) (row_dispatched row))"
proof -
  from assms obtain d where "build_row v sf today d = Inr row"
    by (blast dest: process_order_Some)
  then have "status_flags today (EstimatedDeliveryDate row) (row_dispatched row)
             = (IsOverdue row, IsDueSoon row, IsOnTrack row, DaysOverdue row)"
    by (simp add: build_row_flags)
  from status_flags_spec [OF this, of row]
  show "row_urgency row = Some (fst (spec_urgency today (EstimatedDeliveryDate row) (row_dispatched row)))"
    and "DaysOverdue row = snd (spec_urgency today (EstimatedDeliveryDate row) (row_dispatched row))"
    by simp_all
qed

lemma build_row_fields:
  assumes "build_row v sf today d = Inr row"
  shows "EstimatedDeliveryDate row
           = parse_date (py_or (dict_get d ''EstimatedDeliveryDate'') (dict_get d ''estimatedDeliveryDate''))"
    and "DispatchedDate row
           = parse_date (py_or (dict_get d ''DispatchedDate'') (dict_get d ''dispatchedDate''))"
    and "Stage row = py_or (py_or (dict_get d ''Stage'') (dict_get d ''stage'')) (PStr [])"
proof -
  have low: "lower_char CHR ''E'' = CHR ''e''" "lower_char CHR ''D'' = CHR ''d''"
    "lower_char CHR ''S'' = CHR ''s''"
    by (simp_all add: lower_char_def char_of_eq_char char_eq_char_of)
  have s: "stage_of v d = Inr (py_or (py_or (dict_get d ''Stage'') (dict_get d ''stage'')) (PStr []))"
    by (cases v) (simp_all add: get_field_Cons low)
  from assms show "EstimatedDeliveryDate row
           = parse_date (py_or (dict_get d ''EstimatedDeliveryDate'') (dict_get d ''estimatedDeliveryDate''))"
    and "DispatchedDate row
           = parse_date (py_or (dict_get d ''DispatchedDate'') (dict_get d ''dispatchedDate''))"
    and "Stage row = py_or (py_or (dict_get d ''Stage'') (dict_get d ''stage'')) (PStr [])"
    unfolding build_row_def
    by (auto simp: get_field_Cons s low Let_def or_raise_eq_Inr split: prod.splits)
qed

text \<open>
  Claim C1. For a record that the classifier keeps, on a fixed current date, the flags of
  the row are those of the urgency state machine. The estimated delivery date, the
  dispatch date and the stage of the row are read from the record under either casing;
  the order is dispatched when the stage is \<^verbatim>\<open>"Dispatched"\<close> or a dispatch date is
  present. With an estimated delivery date and not dispatched, the whole days from
  today to that date decide: fewer than 0 is Overdue with \<^verbatim>\<open>DaysOverdue\<close> their negation,
  0 to 7 is DueSoon, more than 7 is OnTrack; otherwise the row is NoDate.
\<close>

theorem urgency_state_machine:
  assumes "process_order v sf today (PDict d) = Inr (Some row)"
  shows "EstimatedDeliveryDate row
           = parse_date (py_or (dict_get d ''EstimatedDeliveryDate'') (dict_get d ''estimatedDeliveryDate''))
       \<and> DispatchedDate row
           = parse_date (py_or (dict_get d ''DispatchedDate'') (dict_get d ''dispatchedDate''))
       \<and> Stage row = py_or (py_or (dict_get d ''Stage'') (dict_get d ''stage'')) (PStr [])
       \<and> row_urgency row
           = Some (fst (spec_urgency today (EstimatedDeliveryDate row)
                          (Stage row = PStr ''Dispatched'' \<or> DispatchedDate row \<noteq> None)))
       \<and> DaysOverdue row
           = snd (spec_urgency today (EstimatedDeliveryDate row)
                    (Stage row = PStr ''Dispatched'' \<or> DispatchedDate row \<noteq> None))"
proof -
  from assms have b: "build_row v sf today d = Inr row"
    by (auto dest: process_order_Some)
  show ?thesis
    using build_row_fields [OF b] process_order_flags [OF assms]
    by (simp add: row_dispatched_def)
qed

theorem urgency_state_machine_witness:
  "process_order TestPy (\<lambda>s. None) today0 late_order = Inr (Some late_row)
   \<and> row_urgency late_row = Some Overdue \<and> DaysOverdue late_row = Some 3"
  using urgency_state_machine [of TestPy "\<lambda>s. None" today0 _ late_row, OF late_order_row [unfolded late_order_def]]
    late_order_row [of TestPy "\<lambda>s. None"]
  by (simp add: late_row_def row_urgency_def)

lemma late_order_frame: "process_orders_dataframe v sf today0 [late_order] = Inr [late_row]"
  by (simp add: process_orders_dataframe_def late_order_row)

text \<open>
  Claim C8. Every row of the data frame the classifier returns has exactly one urgency:
  at most one of the three flags is set, it is NoDate exactly when none is, and
  \<^verbatim>\<open>DaysOverdue\<close> has a value exactly when the urgency is Overdue.
\<close>

theorem one_urgency_per_order:
  assumes "process_orders_dataframe v sf today orders = Inr df" and "row \<in> set df"
  shows "row_urgency row \<noteq> None
       \<and> (row_urgency row = Some NoDate \<longleftrightarrow> \<not> IsOverdue row \<and> \<not> IsDueSoon row \<and> \<not> IsOnTrack row)
       \<and> (DaysOverdue row \<noteq> None \<longleftrightarrow> row_urgency row = Some Overdue)"
proof -
  from dataframe_rows [OF assms] obtain order where "process_order v sf today order = Inr (Some row)"
    by blast
  from process_order_flags [OF this]
  have u: "row_urgency row = Some (fst (spec_urgency today (EstimatedDeliveryDate row) (row_dispatched row)))"
    and d: "DaysOverdue row = snd (spec_urgency today (EstimatedDeliveryDate row) (row_dispatched row))"
    by simp_all
  have "(snd (spec_urgency today e b) \<noteq> None) = (fst (spec_urgency today e b) = Overdue)" for e b
    by (simp add: spec_urgency_def Let_def split: option.splits)
  with u d have "(DaysOverdue row \<noteq> None) = (row_urgency row = Some Overdue)"
    by simp
  moreover have "(row_urgency row = Some NoDate) = (\<not> IsOverdue row \<and> \<not> IsDueSoon row \<and> \<not> IsOnTrack row)"
    by (simp add: row_urgency_def)
  ultimately show ?thesis using u by simp
qed

theorem one_urgency_per_order_witness:
  "process_orders_dataframe AppPy (\<lambda>s. None) today0 [late_order] = Inr [late_row]
   \<and> late_row \<in> set [late_row]
   \<and> row_urgency late_row = Some Overdue \<and> DaysOverdue late_row \<noteq> None"
proof -
  have f: "process_orders_dataframe AppPy (\<lambda>s. None) today0 [late_order] = Inr [late_row]"
    by (rule late_order_frame)
  have m: "late_row \<in> set [late_row]" by simp
  have "DaysOverdue late_row \<noteq> None" by (simp add: late_row_def)
  with one_urgency_per_order [OF f m] f show ?thesis by simp
qed

subsection \<open>Field reconciler\<close>

text \<open>
  Claim C3, as the specification states it, fails: a value that is present and not null
  under the PascalCase name, but falsy, is passed over. Here \<^verbatim>\<open>BranchId\<close> is 0 and the
  reconciler returns the 5 stored under \<^verbatim>\<open>branchId\<close>.
\<close>

theorem get_field_overlooks_falsy_counterexample:
  "dict_get zero_branch_order ''BranchId'' = PInt 0
   \<and> PInt 0 \<noteq> PNone
   \<and> get_field zero_branch_order ''BranchId'' = Inr (PInt 5)"
  by (simp add: zero_branch_order_def dict_get_def get_field_def lower_char_def char_of_eq_char char_eq_char_of)

text \<open>
  Claim C3, amended. For a non-empty field name the reconciler never raises and returns
  the value under the PascalCase name when that value is truthy, otherwise the value
  under the name with its first character lower-cased, which is \<^verbatim>\<open>None\<close> when that key is
  absent. So a truthy PascalCase value is returned whatever the camelCase key holds, and
  a field absent under both names gives \<^verbatim>\<open>None\<close>. The record is an argument that the
  function only reads.
\<close>

theorem get_field_first_truthy:
  "get_field order (c # cs)
     = Inr (if truthy (dict_get order (c # cs)) then dict_get order (c # cs)
            else dict_get order (lower_char c # cs))
   \<and> (truthy (dict_get order (c # cs)) \<longrightarrow> get_field order (c # cs) = Inr (dict_get order (c # cs)))
   \<and> (map_of order' (c # cs) = None \<and> map_of order' (lower_char c # cs) = None
        \<longrightarrow> get_field order' (c # cs) = Inr PNone)"
  by (simp add: get_field_def dict_get_def)

theorem get_field_first_truthy_witness:
  "truthy (dict_get both_cases_order ''Reference'')
   \<and> get_field both_cases_order ''Reference'' = Inr (PStr ''SO-1'')
   \<and> map_of [] ''Reference'' = (None :: pyval option)
   \<and> map_of [] ''reference'' = (None :: pyval option)
   \<and> get_field [] ''Reference'' = Inr PNone"
  using get_field_first_truthy [of both_cases_order "CHR ''R''" "''eference''" "[]"]
  by (simp add: both_cases_order_def dict_get_def lower_char_def char_of_eq_char char_eq_char_of)

subsection \<open>Quantities of line items\<close>








subsection \<open>Void records\<close>

lemma process_order_void: "void_record order \<Longrightarrow> process_order v sf today order = Inr None"
  by (cases order) (simp_all add: void_record_def process_order_def)

lemma process_loop_without_void:
  "process_loop v sf today (filter (\<lambda>order. \<not> void_record order) orders) processed
     = process_loop v sf today orders processed"
  by (induction orders arbitrary: processed) (simp_all add: process_order_void)

lemma void_order_is_void: "void_record void_order"
  by (simp add: void_order_def void_record_def is_void_def dict_get_def py_or_def)

lemma late_order_not_void: "\<not> void_record late_order"
  by (simp add: late_order_def void_record_def is_void_def dict_get_def py_or_def)

text \<open>
  Claim C7. A record whose void flag is truthy under either casing never reaches the
  output of the classifier, whatever else it holds: its pass of the loop appends nothing
  and raises nothing, the output is the output for the input without its void records,
  and every row of the output was built from a record that is not void.
\<close>

theorem void_orders_excluded:
  "(void_record order \<longrightarrow> process_order v sf today order = Inr None)
   \<and> process_orders_dataframe v sf today orders
       = process_orders_dataframe v sf today (filter (\<lambda>order. \<not> void_record order) orders)
   \<and> (process_orders_dataframe v sf today orders = Inr df \<and> row \<in> set df
       \<longrightarrow> (\<exists>kept \<in> set orders. \<not> void_record kept \<and> process_order v sf today kept = Inr (Some row)))"
proof (intro conjI impI)
  show "process_order v sf today order = Inr None" if "void_record order"
    using that by (rule process_order_void)
  show "process_orders_dataframe v sf today orders
       = process_orders_dataframe v sf today (filter (\<lambda>order. \<not> void_record order) orders)"
    by (simp add: process_orders_dataframe_def process_loop_without_void)
  show "\<exists>kept \<in> set orders. \<not> void_record kept \<and> process_order v sf today kept = Inr (Some row)"
    if "process_orders_dataframe v sf today orders = Inr df \<and> row \<in> set df"
  proof -
    from that dataframe_rows obtain kept where k: "kept \<in> set orders"
      and r: "process_order v sf today kept = Inr (Some row)"
      by blast
    from r have "\<not> void_record kept"
      using process_order_void [of kept v sf today] by auto
    with k r show ?thesis by blast
  qed
qed

theorem void_orders_excluded_witness:
  "void_record void_order
   \<and> process_order AppPy (\<lambda>s. None) today0 void_order = Inr None
   \<and> process_orders_dataframe AppPy (\<lambda>s. None) today0 [void_order, late_order] = Inr [late_row]
   \<and> late_row \<in> set [late_row]
   \<and> \<not> void_record late_order"
proof -
  note t = void_orders_excluded [of void_order AppPy "\<lambda>s. None" today0 "[void_order, late_order]"
      "[late_row]" late_row]
  have f: "filter (\<lambda>order. \<not> void_record order) [void_order, late_order] = [late_order]"
    by (simp add: void_order_is_void late_order_not_void)
  from t have "process_order AppPy (\<lambda>s. None) today0 void_order = Inr None"
    using void_order_is_void by blast
  moreover from t have "process_orders_dataframe AppPy (\<lambda>s. None) today0 [void_order, late_order]
      = process_orders_dataframe AppPy (\<lambda>s. None) today0 (filter (\<lambda>order. \<not> void_record order) [void_order, late_order])"
    by blast
  then have "process_orders_dataframe AppPy (\<lambda>s. None) today0 [void_order, late_order] = Inr [late_row]"
    unfolding f by (simp only: late_order_frame)
  ultimately show ?thesis
    using void_order_is_void late_order_not_void by simp
qed

subsection \<open>Requests and retries\<close>

lemma sent_send [simp]: "sent (send path ps st) = sent st @ [(path, ps)]"
  and slept_send [simp]: "slept (send path ps st) = slept st"
  and shown_send [simp]: "shown (send path ps st) = shown st"
  by (simp_all add: send_def)

lemma sent_sleep [simp]: "sent (sleep secs st) = sent st"
  and slept_sleep [simp]: "slept (sleep secs st) = slept st @ [secs]"
  and shown_sleep [simp]: "shown (sleep secs st) = shown st"
  by (simp_all add: sleep_def)

lemma sent_show [simp]: "sent (show_message m st) = sent st"
  and slept_show [simp]: "slept (show_message m st) = slept st"
  and shown_show [simp]: "shown (show_message m st) = shown st @ [m]"
  by (simp_all add: show_message_def)

lemma sent_after_failure [simp]: "sent (after_failure attempt st) = sent st"
  and shown_after_failure [simp]: "shown (after_failure attempt st) = shown st"
  by (simp_all add: after_failure_def)

lemma range_retries: "[0..<API_MAX_RETRIES] = [0, 1, 2]"
  by (simp add: API_MAX_RETRIES_def upt_numeral)

lemma serves_pageD:
  "serves_page env k ps orders \<Longrightarrow> \<exists>txt. remote env k ''/SalesOrders'' ps = Response 200 txt (Inr (PList orders))"
  by (auto simp: serves_page_def split: outcome.splits sum.splits)

lemma request_json_unfold:
  "request_json env ''/SalesOrders'' ps se st =
     (if \<not> credentials env then (Inl StopException, show_message CredentialsMissing st)
      else attempts env ''/SalesOrders'' ps se [0, 1, 2] None st)"
  by (simp add: request_json_def range_retries)

lemma request_json_first_try:
  assumes "credentials env" and "serves_page env (length (sent st)) ps orders"
  shows "request_json env ''/SalesOrders'' ps False st = (Inr (PList orders), send ''/SalesOrders'' ps st)"
  using assms(1) serves_pageD [OF assms(2)]
  by (auto simp: request_json_def range_retries)

text \<open>A call only adds requests for its own page to the log.\<close>

lemma attempts_sent:
  "\<exists>n. sent (snd (attempts env path ps se as le st)) = sent st @ replicate n (path, ps)"
proof (induction as arbitrary: le st)
  case Nil
  show ?case by (rule exI [of _ 0]) simp
next
  case (Cons attempt rest)
  have step: "\<exists>n. sent (snd (attempts env path ps se rest le' st')) = sent st @ replicate n (path, ps)"
    if "sent st' = sent st @ [(path, ps)]" for le' st'
  proof -
    from Cons.IH [of le' st'] obtain n where
      "sent (snd (attempts env path ps se rest le' st')) = sent st' @ replicate n (path, ps)" ..
    with that have "sent (snd (attempts env path ps se rest le' st')) = sent st @ replicate (Suc n) (path, ps)"
      by (simp add: replicate_app_Cons_same)
    then show ?thesis ..
  qed
  have one: "\<exists>n. [(path, ps)] = replicate n (path, ps)"
    by (rule exI [of _ 1]) simp
  show ?case
    by (cases "remote env (length (sent st)) path ps")
       (auto simp: step one split: sum.splits)
qed

lemma request_json_sent:
  "\<exists>n. sent (snd (request_json env ''/SalesOrders'' ps se st)) = sent st @ replicate n (''/SalesOrders'', ps)"
proof (cases "credentials env")
  case True
  then have "request_json env ''/SalesOrders'' ps se st = attempts env ''/SalesOrders'' ps se [0, 1, 2] None st"
    by (simp add: request_json_unfold del: attempts.simps)
  then show ?thesis
    by (simp only: attempts_sent)
next
  case False
  then have "request_json env ''/SalesOrders'' ps se st = (Inl StopException, show_message CredentialsMissing st)"
    by (simp add: request_json_unfold del: attempts.simps)
  then have "sent (snd (request_json env ''/SalesOrders'' ps se st)) = sent st @ replicate 0 (''/SalesOrders'', ps)"
    by simp
  then show ?thesis by (rule exI [of _ 0])
qed

text \<open>An attempt answered 401 or 403 is the last one, and the call stops the script.\<close>

lemma attempts_auth:
  assumes "attempts env path ps se as le st = (res, st')"
    and "length (sent st) \<le> k" and "k < length (sent st')"
    and "auth_message (remote env k path ps) = Some m"
  shows "res = Inl StopException \<and> Suc k = length (sent st') \<and> shown st' \<noteq> [] \<and> last (shown st') = m"
  using assms
proof (induction as arbitrary: le st)
  case Nil
  then show ?case by (auto split: if_splits)
next
  case (Cons attempt rest)
  let ?n = "length (sent st)"
  have rec: ?case
    if a: "attempts env path ps se rest le' st2 = (res, st')"
      and s: "sent st2 = sent st @ [(path, ps)]"
      and na: "auth_message (remote env ?n path ps) = None" for le' st2
  proof -
    from na Cons.prems(4) have "k \<noteq> ?n" by auto
    with Cons.prems(2) s have "length (sent st2) \<le> k" by simp
    from Cons.IH [OF a this Cons.prems(3) Cons.prems(4)] show ?thesis .
  qed
  show ?case
  proof (cases "remote env ?n path ps")
    case (Response status_code resp_text body)
    consider "status_code = 200" | "status_code = 401" | "status_code = 403" | "status_code = 429"
      | "status_code \<noteq> 200" "status_code \<noteq> 401" "status_code \<noteq> 403" "status_code \<noteq> 429"
      by blast
    then show ?thesis
    proof cases
      case 1
      show ?thesis
      proof (cases body)
        case (Inl msg)
        with Cons.prems(1) Response 1 show ?thesis
          by (intro rec [of "Some (RequestFailed msg)" "after_failure attempt (send path ps st)"]) simp_all
      next
        case (Inr v)
        with Cons.prems Response 1 show ?thesis
          by (auto simp: less_Suc_eq)
      qed
    next
      case 2
      with Cons.prems Response show ?thesis
        by (auto simp: less_Suc_eq)
    next
      case 3
      with Cons.prems Response show ?thesis
        by (auto simp: less_Suc_eq)
    next
      case 4
      with Cons.prems(1) Response show ?thesis
        by (intro rec [of le "sleep (API_RETRY_DELAY * of_nat (attempt + 1) * 2) (send path ps st)"]) simp_all
    next
      case 5
      with Cons.prems(1) Response show ?thesis
        by (intro rec [of "Some (HttpError status_code (take 500 resp_text))" "after_failure attempt (send path ps st)"])
           simp_all
    qed
  next
    case Timeout
    with Cons.prems(1) show ?thesis
      by (intro rec [of "Some TimedOut" "after_failure attempt (send path ps st)"]) simp_all
  next
    case ConnectionError
    with Cons.prems(1) show ?thesis
      by (intro rec [of "Some CouldNotConnect" "after_failure attempt (send path ps st)"]) simp_all
  next
    case (RequestException msg)
    with Cons.prems(1) show ?thesis
      by (intro rec [of "Some (RequestFailed msg)" "after_failure attempt (send path ps st)"]) simp_all
  qed
qed

lemma request_json_auth:
  assumes r: "request_json env ''/SalesOrders'' ps se st = (res, st')"
    and lo: "length (sent st) \<le> k" and hi: "k < length (sent st')"
    and au: "auth_message (received env st' k) = Some m"
  shows "res = Inl StopException \<and> Suc k = length (sent st') \<and> shown st' \<noteq> [] \<and> last (shown st') = m"
proof -
  from request_json_sent [of env ps se st] r obtain n
    where n: "sent st' = sent st @ replicate n (''/SalesOrders'', ps)" by auto
  with lo hi have "sent st' ! k = (''/SalesOrders'', ps)"
    by (simp add: nth_append)
  with au have a: "auth_message (remote env k ''/SalesOrders'' ps) = Some m"
    by (simp add: received_def)
  have c: "credentials env"
  proof (rule ccontr)
    assume "\<not> credentials env"
    with r have "st' = show_message CredentialsMissing st"
      by (simp add: request_json_unfold del: attempts.simps)
    with lo hi show False by simp
  qed
  with r have "attempts env ''/SalesOrders'' ps se [0, 1, 2] None st = (res, st')"
    by (simp add: request_json_unfold del: attempts.simps)
  from attempts_auth [OF this lo hi a] show ?thesis .
qed

text \<open>A transient failure moves to the next attempt; three of them end the call with
  \<^verbatim>\<open>None\<close>, two waits and the last error shown.\<close>

lemma attempt_fails:
  assumes "transient_error (remote env (length (sent st)) path ps) = Some e"
  shows "attempts env path ps se (attempt # rest) le st
         = attempts env path ps se rest (Some e) (after_failure attempt (send path ps st))"
  using assms
  by (cases "remote env (length (sent st)) path ps") (auto split: sum.splits if_splits)

lemma three_failures:
  assumes "credentials env"
    and "transient_error (remote env (length (sent st)) ''/SalesOrders'' ps) = Some e1"
    and "transient_error (remote env (length (sent st) + 1) ''/SalesOrders'' ps) = Some e2"
    and "transient_error (remote env (length (sent st) + 2) ''/SalesOrders'' ps) = Some e3"
  shows "request_json env ''/SalesOrders'' ps False st
         = (Inr PNone,
            st\<lparr>sent := sent st @ [(''/SalesOrders'', ps), (''/SalesOrders'', ps), (''/SalesOrders'', ps)],
               slept := slept st @ [1, 2],
               shown := shown st @ [ApiError 3 (Some e3)]\<rparr>)"
proof -
  let ?s1 = "after_failure 0 (send ''/SalesOrders'' ps st)"
  let ?s2 = "after_failure 1 (send ''/SalesOrders'' ps ?s1)"
  let ?s3 = "after_failure 2 (send ''/SalesOrders'' ps ?s2)"
  have a1: "attempts env ''/SalesOrders'' ps False [0, 1, 2] None st
            = attempts env ''/SalesOrders'' ps False [1, 2] (Some e1) ?s1"
    using assms(2) by (rule attempt_fails)
  have a2: "attempts env ''/SalesOrders'' ps False [1, 2] (Some e1) ?s1
            = attempts env ''/SalesOrders'' ps False [2] (Some e2) ?s2"
    using assms(3) by (intro attempt_fails) simp
  have a3: "attempts env ''/SalesOrders'' ps False [2] (Some e2) ?s2
            = attempts env ''/SalesOrders'' ps False [] (Some e3) ?s3"
    using assms(4) by (intro attempt_fails) simp
  have "attempts env ''/SalesOrders'' ps False [] (Some e3) ?s3
        = (Inr PNone,
            st\<lparr>sent := sent st @ [(''/SalesOrders'', ps), (''/SalesOrders'', ps), (''/SalesOrders'', ps)],
               slept := slept st @ [1, 2],
               shown := shown st @ [ApiError 3 (Some e3)]\<rparr>)"
    by (simp add: after_failure_def send_def sleep_def show_message_def API_MAX_RETRIES_def API_RETRY_DELAY_def)
  with a1 a2 a3 assms(1) show ?thesis
    by (simp add: request_json_unfold del: attempts.simps)
qed

subsection \<open>The pagination loop\<close>

lemma fetch_pages_continue:
  assumes "request_json env ''/SalesOrders'' (page_params flds order_by where_clause page) False st = (Inr response, st1)"
    and "response \<noteq> PNone" and "response_orders response = Some orders" and "orders \<noteq> []"
    and "\<not> length orders < rows_per_page" and "\<not> page + 1 > 100"
  shows "fetch_pages env flds order_by where_clause page all_orders st
         = fetch_pages env flds order_by where_clause (page + 1) (all_orders @ orders) st1"
  using assms by (simp add: fetch_pages.simps [of env flds order_by where_clause page all_orders st])

lemma fetch_pages_stop:
  assumes rq: "request_json env ''/SalesOrders'' (page_params flds order_by where_clause page) False st = (r, st1)"
    and stop: "\<not> (\<exists>response orders. r = Inr response \<and> response \<noteq> PNone
                  \<and> response_orders response = Some orders
                  \<and> orders \<noteq> [] \<and> \<not> length orders < rows_per_page \<and> \<not> page + 1 > 100)"
  shows "sent (snd (fetch_pages env flds order_by where_clause page all_orders st)) = sent st1"
    and "r = Inl e \<Longrightarrow> fetch_pages env flds order_by where_clause page all_orders st = (Inl e, st1)"
    and "r = Inr v \<Longrightarrow> \<exists>x. fst (fetch_pages env flds order_by where_clause page all_orders st) = Inr x"
proof -
  note unfold = fetch_pages.simps [of env flds order_by where_clause page all_orders st]
  show "r = Inl e \<Longrightarrow> fetch_pages env flds order_by where_clause page all_orders st = (Inl e, st1)"
    using rq by (simp add: unfold)
  have "sent (snd (fetch_pages env flds order_by where_clause page all_orders st)) = sent st1
      \<and> (\<forall>v. r = Inr v \<longrightarrow> (\<exists>x. fst (fetch_pages env flds order_by where_clause page all_orders st) = Inr x))"
  proof (cases r)
    case (Inl e)
    with rq show ?thesis by (simp add: unfold)
  next
    case (Inr response)
    note r = this
    show ?thesis
    proof (cases "response = PNone")
      case True
      with rq r show ?thesis by (simp add: unfold)
    next
      case False
      note nn = this
      show ?thesis
      proof (cases "response_orders response")
        case None
        with rq r nn show ?thesis by (simp add: unfold)
      next
        case (Some orders)
        with stop r nn consider "orders = []" | "orders \<noteq> []" "length orders < rows_per_page"
          | "orders \<noteq> []" "\<not> length orders < rows_per_page" "page + 1 > 100"
          by blast
        then show ?thesis
        proof cases
          case 1
          with rq r nn Some show ?thesis by (simp add: unfold)
        next
          case 2
          with rq r nn Some show ?thesis by (simp add: unfold)
        next
          case 3
          with rq r nn Some show ?thesis by (simp add: unfold)
        qed
      qed
    qed
  qed
  then show "sent (snd (fetch_pages env flds order_by where_clause page all_orders st)) = sent st1"
    and "r = Inr v \<Longrightarrow> \<exists>x. fst (fetch_pages env flds order_by where_clause page all_orders st) = Inr x"
    by simp_all
qed

lemma fetch_pages_sent:
  "\<exists>more. sent (snd (fetch_pages env flds order_by where_clause page all_orders st)) = sent st @ more"
proof (induction env flds order_by where_clause page all_orders st rule: fetch_pages.induct)
  case (1 env flds order_by where_clause page all_orders st)
  let ?ps = "page_params flds order_by where_clause page"
  obtain r st1 where rq: "request_json env ''/SalesOrders'' ?ps False st = (r, st1)"
    by (cases "request_json env ''/SalesOrders'' ?ps False st")
  from request_json_sent [of env ?ps False st] rq obtain n
    where n: "sent st1 = sent st @ replicate n (''/SalesOrders'', ?ps)" by auto
  show ?case
  proof (cases "\<exists>response orders. r = Inr response \<and> response \<noteq> PNone \<and> response_orders response = Some orders
                  \<and> orders \<noteq> [] \<and> \<not> length orders < rows_per_page \<and> \<not> page + 1 > 100")
    case True
    then obtain response orders where c: "r = Inr response" "response \<noteq> PNone"
      "response_orders response = Some orders" "orders \<noteq> []" "\<not> length orders < rows_per_page"
      "\<not> page + 1 > 100" by blast
    from "1.IH" [OF rq [symmetric] c(1) c(2) c(3) c(4) c(5) c(6)]
    obtain more where "sent (snd (fetch_pages env flds order_by where_clause (page + 1) (all_orders @ orders) st1))
        = sent st1 @ more" ..
    moreover from rq c have "fetch_pages env flds order_by where_clause page all_orders st
         = fetch_pages env flds order_by where_clause (page + 1) (all_orders @ orders) st1"
      by (intro fetch_pages_continue) simp_all
    ultimately show ?thesis
      using n by simp
  next
    case False
    from fetch_pages_stop(1) [OF rq False, of all_orders] n show ?thesis
      by simp
  qed
qed

lemma received_same: "sent a ! k = sent b ! k \<Longrightarrow> received env a k = received env b k"
  by (simp add: received_def)

lemma fetch_pages_auth:
  assumes "fetch_pages env flds order_by where_clause page all_orders st = (res, st')"
    and "length (sent st) \<le> k" and "k < length (sent st')"
    and "auth_message (received env st' k) = Some m"
  shows "res = Inl StopException \<and> Suc k = length (sent st') \<and> shown st' \<noteq> [] \<and> last (shown st') = m"
  using assms
proof (induction env flds order_by where_clause page all_orders st rule: fetch_pages.induct)
  case (1 env flds order_by where_clause page all_orders st)
  let ?ps = "page_params flds order_by where_clause page"
  obtain r st1 where rq: "request_json env ''/SalesOrders'' ?ps False st = (r, st1)"
    by (cases "request_json env ''/SalesOrders'' ?ps False st")
  from request_json_sent [of env ?ps False st] rq obtain n
    where n: "sent st1 = sent st @ replicate n (''/SalesOrders'', ?ps)" by auto
  from fetch_pages_sent [of env flds order_by where_clause page all_orders st] "1.prems"(1)
  obtain more where more: "sent st' = sent st @ more" by auto
  show ?case
  proof (cases "\<exists>response orders. r = Inr response \<and> response \<noteq> PNone \<and> response_orders response = Some orders
                  \<and> orders \<noteq> [] \<and> \<not> length orders < rows_per_page \<and> \<not> page + 1 > 100")
    case True
    then obtain response orders where c: "r = Inr response" "response \<noteq> PNone"
      "response_orders response = Some orders" "orders \<noteq> []" "\<not> length orders < rows_per_page"
      "\<not> page + 1 > 100" by blast
    from rq c have "fetch_pages env flds order_by where_clause page all_orders st
         = fetch_pages env flds order_by where_clause (page + 1) (all_orders @ orders) st1"
      by (intro fetch_pages_continue) simp_all
    with "1.prems"(1) have nx: "fetch_pages env flds order_by where_clause (page + 1) (all_orders @ orders) st1 = (res, st')"
      by simp
    from fetch_pages_sent [of env flds order_by where_clause "page + 1" "all_orders @ orders" st1] nx
    obtain more1 where more1: "sent st' = sent st1 @ more1" by auto
    show ?thesis
    proof (cases "k < length (sent st1)")
      case True
      with more1 have "sent st' ! k = sent st1 ! k" by (simp add: nth_append)
      then have "received env st' k = received env st1 k" by (rule received_same)
      with "1.prems"(4) have "auth_message (received env st1 k) = Some m" by simp
      from request_json_auth [OF rq "1.prems"(2) True this] c(1) show ?thesis by simp
    next
      case False
      then have "length (sent st1) \<le> k" by simp
      from "1.IH" [OF rq [symmetric] c(1) c(2) c(3) c(4) c(5) c(6) nx this "1.prems"(3) "1.prems"(4)]
      show ?thesis .
    qed
  next
    case False
    from fetch_pages_stop(1) [OF rq False, of all_orders] "1.prems"(1)
    have same: "sent st' = sent st1" by simp
    with "1.prems"(3) have k1: "k < length (sent st1)" by simp
    from same have "received env st' k = received env st1 k" by (simp add: received_def)
    with "1.prems"(4) have "auth_message (received env st1 k) = Some m" by simp
    from request_json_auth [OF rq "1.prems"(2) k1 this]
    have r: "r = Inl StopException" and rest: "Suc k = length (sent st1)" "shown st1 \<noteq> []" "last (shown st1) = m"
      by simp_all
    from fetch_pages_stop(2) [OF rq False r, of all_orders] "1.prems"(1)
    have "res = Inl StopException" "st' = st1" by simp_all
    with rest show ?thesis by simp
  qed
qed

lemma fetch_full_pages:
  assumes "credentials env" and "page + m \<le> 100"
    and "\<forall>i<m. serves_page env (length (sent st) + i) (page_params flds order_by where_clause (page + i)) (pg i)
              \<and> rows_per_page \<le> length (pg i)"
  shows "fetch_pages env flds order_by where_clause page all_orders st
         = fetch_pages env flds order_by where_clause (page + m) (all_orders @ concat (map pg [0..<m]))
             (st\<lparr>sent := sent st
                @ map (\<lambda>i. (''/SalesOrders'', page_params flds order_by where_clause (page + i))) [0..<m]\<rparr>)"
  using assms
proof (induction m arbitrary: page all_orders st pg)
  case 0
  then show ?case by simp
next
  case (Suc m)
  let ?ps = "page_params flds order_by where_clause page"
  let ?st1 = "send ''/SalesOrders'' ?ps st"
  from Suc.prems(3) have first: "serves_page env (length (sent st)) ?ps (pg 0)"
    and full: "rows_per_page \<le> length (pg 0)"
    by (auto dest: spec [of _ 0])
  from request_json_first_try [OF Suc.prems(1) first]
  have rq: "request_json env ''/SalesOrders'' ?ps False st = (Inr (PList (pg 0)), ?st1)" .
  from full have ne: "pg 0 \<noteq> []" by (auto simp: rows_per_page_def)
  from Suc.prems(2) have lim: "\<not> page + 1 > 100" by simp
  have step: "fetch_pages env flds order_by where_clause page all_orders st
         = fetch_pages env flds order_by where_clause (page + 1) (all_orders @ pg 0) ?st1"
    using ne full lim by (intro fetch_pages_continue [where orders = "pg 0", OF rq]) simp_all
  have later: "\<forall>i<m. serves_page env (length (sent ?st1) + i)
                  (page_params flds order_by where_clause (page + 1 + i)) (pg (Suc i))
              \<and> rows_per_page \<le> length (pg (Suc i))"
  proof (intro allI impI)
    fix i assume "i < m"
    then have "Suc i < Suc m" by simp
    with Suc.prems(3) have "serves_page env (length (sent st) + Suc i)
        (page_params flds order_by where_clause (page + Suc i)) (pg (Suc i))
        \<and> rows_per_page \<le> length (pg (Suc i))" by blast
    then show "serves_page env (length (sent ?st1) + i)
                  (page_params flds order_by where_clause (page + 1 + i)) (pg (Suc i))
              \<and> rows_per_page \<le> length (pg (Suc i))" by simp
  qed
  from Suc.prems(2) have "page + 1 + m \<le> 100" by simp
  from Suc.IH [OF Suc.prems(1) this later, of "all_orders @ pg 0"]
  have "fetch_pages env flds order_by where_clause (page + 1) (all_orders @ pg 0) ?st1
         = fetch_pages env flds order_by where_clause (page + 1 + m)
             ((all_orders @ pg 0) @ concat (map (\<lambda>i. pg (Suc i)) [0..<m]))
             (?st1\<lparr>sent := sent ?st1
                @ map (\<lambda>i. (''/SalesOrders'', page_params flds order_by where_clause (page + 1 + i))) [0..<m]\<rparr>)" .
  also have "(all_orders @ pg 0) @ concat (map (\<lambda>i. pg (Suc i)) [0..<m])
         = all_orders @ concat (map pg [0..<Suc m])"
    by (simp add: map_upt_Suc del: upt_Suc)
  also have "?st1\<lparr>sent := sent ?st1
                @ map (\<lambda>i. (''/SalesOrders'', page_params flds order_by where_clause (page + 1 + i))) [0..<m]\<rparr>
         = st\<lparr>sent := sent st
                @ map (\<lambda>i. (''/SalesOrders'', page_params flds order_by where_clause (page + i))) [0..<Suc m]\<rparr>"
    by (simp add: send_def map_upt_Suc del: upt_Suc)
  also have "page + 1 + m = page + Suc m" by simp
  finally show ?case using step by simp
qed

lemma fetch_short_page:
  assumes "credentials env"
    and "serves_page env (length (sent st)) (page_params flds order_by where_clause page) orders"
    and "length orders < rows_per_page"
  shows "fetch_pages env flds order_by where_clause page all_orders st
         = (Inr (all_orders @ orders), send ''/SalesOrders'' (page_params flds order_by where_clause page) st)"
  using request_json_first_try [OF assms(1) assms(2)] assms(3)
  by (simp add: fetch_pages.simps [of env flds order_by where_clause page all_orders st])

lemma fetch_failed_page:
  assumes "credentials env"
    and "transient_error (remote env (length (sent st)) ''/SalesOrders'' (page_params flds order_by where_clause page)) = Some e1"
    and "transient_error (remote env (length (sent st) + 1) ''/SalesOrders'' (page_params flds order_by where_clause page)) = Some e2"
    and "transient_error (remote env (length (sent st) + 2) ''/SalesOrders'' (page_params flds order_by where_clause page)) = Some e3"
  shows "fetch_pages env flds order_by where_clause page all_orders st
         = (Inr all_orders,
            st\<lparr>sent := sent st @ replicate 3 (''/SalesOrders'', page_params flds order_by where_clause page),
               slept := slept st @ [1, 2],
               shown := shown st @ [ApiError 3 (Some e3)]\<rparr>)"
  using three_failures [OF assms]
  by (simp add: fetch_pages.simps [of env flds order_by where_clause page all_orders st] numeral_3_eq_3)

lemma fetch_sales_orders_run:
  assumes "fetch_pages env (join '','' SALES_ORDER_FIELDS) ''EstimatedDeliveryDate ASC, CreatedDate ASC''
             (build_where_clause excluded_stages) 1 [] st = (r, st')"
  shows "fetch_sales_orders v sf today env excluded_stages st
         = (case r of Inl e \<Rightarrow> Inl e
            | Inr all_orders \<Rightarrow> if all_orders = [] then Inr [] else process_orders_dataframe v sf today all_orders,
            st')"
  using assms by (simp add: fetch_sales_orders_def split: sum.splits)

lemma process_loop_replicate:
  "process_order v sf today order = Inr (Some row) \<Longrightarrow>
     process_loop v sf today (replicate n order) processed = Inr (processed @ replicate n row)"
  by (induction n arbitrary: processed) (simp_all add: replicate_app_Cons_same)

lemma late_orders_frame:
  "process_orders_dataframe v sf today0 (replicate n late_order) = Inr (replicate n late_row)"
  by (simp add: process_orders_dataframe_def process_loop_replicate [OF late_order_row])

lemma upt_2: "[0..<2] = [0, Suc 0]"
  by (simp add: upt_rec)

lemma first_page_served:
  "env = forbidden_env \<or> env = failing_env \<Longrightarrow>
     \<forall>i<1. serves_page env (length (sent io0) + i) (sales_orders_params [] (i + 1))
                    ((\<lambda>i. replicate 250 late_order) i)
              \<and> rows_per_page \<le> length ((\<lambda>i. replicate 250 late_order) i)"
  by (auto simp: serves_page_def forbidden_env_def failing_env_def sales_orders_params_def page_params_def
        rows_per_page_def)

text \<open>The request and the page of the specification, in the terms of the loop.\<close>

lemma join_not_Nil: "xs \<noteq> [] \<Longrightarrow> \<forall>x \<in> set xs. x \<noteq> [] \<Longrightarrow> join sep xs \<noteq> []"
  by (induction sep xs rule: join.induct) auto

lemma page_request_params:
  "page_request (stage_filter excluded_stages) page
     = (''/SalesOrders'',
        page_params (join '','' SALES_ORDER_FIELDS) ''EstimatedDeliveryDate ASC, CreatedDate ASC''
          (build_where_clause excluded_stages) page)"
proof (cases "excluded_stages = []")
  case True
  then show ?thesis
    by (simp add: page_request_def stage_filter_def page_params_def build_where_clause_def
          SALES_ORDER_FIELDS_def rows_per_page_def)
next
  case False
  let ?conditions = "map (\<lambda>stage. ''Stage<>'' @ [CHR 0x27] @ stage @ [CHR 0x27]) excluded_stages"
  from False have "join '' AND '' ?conditions \<noteq> []"
    by (intro join_not_Nil) auto
  with False show ?thesis
    by (simp add: page_request_def stage_filter_def page_params_def build_where_clause_def
          SALES_ORDER_FIELDS_def rows_per_page_def Let_def)
qed

lemma page_records_orders:
  "page_records body = Some records \<Longrightarrow> body \<noteq> PNone \<and> response_orders body = Some records"
  by (cases body)
    (auto simp: dict_get_default_def dict_get_def single_record_def split: option.splits pyval.splits)

lemma answers_pageD:
  assumes "answers_page env k (''/SalesOrders'', ps) records"
  obtains resp_text body where "remote env k ''/SalesOrders'' ps = Response 200 resp_text (Inr body)"
    and "body \<noteq> PNone" and "response_orders body = Some records"
  using assms page_records_orders
  by (auto simp: answers_page_def split: outcome.splits sum.splits)

lemma request_json_answer:
  assumes "credentials env"
    and "remote env (length (sent st)) ''/SalesOrders'' ps = Response 200 resp_text (Inr body)"
  shows "request_json env ''/SalesOrders'' ps False st = (Inr body, send ''/SalesOrders'' ps st)"
  using assms by (auto simp: request_json_def range_retries)

lemma fetch_answered_pages:
  assumes "credentials env" and "page + m \<le> 100"
    and "\<forall>i<m. answers_page env (length (sent st) + i)
                  (''/SalesOrders'', page_params flds order_by where_clause (page + i)) (pg i)
              \<and> 250 \<le> length (pg i)"
  shows "fetch_pages env flds order_by where_clause page all_orders st
         = fetch_pages env flds order_by where_clause (page + m) (all_orders @ concat (map pg [0..<m]))
             (st\<lparr>sent := sent st
                @ map (\<lambda>i. (''/SalesOrders'', page_params flds order_by where_clause (page + i))) [0..<m]\<rparr>)"
  using assms
proof (induction m arbitrary: page all_orders st pg)
  case 0
  then show ?case by simp
next
  case (Suc m)
  let ?ps = "page_params flds order_by where_clause page"
  let ?st1 = "send ''/SalesOrders'' ?ps st"
  from Suc.prems(3) have first: "answers_page env (length (sent st)) (''/SalesOrders'', ?ps) (pg 0)"
    and full: "250 \<le> length (pg 0)"
    by (auto dest: spec [of _ 0])
  from first obtain resp_text body where body: "remote env (length (sent st)) ''/SalesOrders'' ?ps = Response 200 resp_text (Inr body)"
    "body \<noteq> PNone" "response_orders body = Some (pg 0)"
    by (rule answers_pageD)
  from request_json_answer [OF Suc.prems(1) body(1)]
  have rq: "request_json env ''/SalesOrders'' ?ps False st = (Inr body, ?st1)" .
  from full have ne: "pg 0 \<noteq> []" by auto
  from full have nl: "\<not> length (pg 0) < rows_per_page" by (simp add: rows_per_page_def)
  from Suc.prems(2) have lim: "\<not> page + 1 > 100" by simp
  have step: "fetch_pages env flds order_by where_clause page all_orders st
         = fetch_pages env flds order_by where_clause (page + 1) (all_orders @ pg 0) ?st1"
    by (rule fetch_pages_continue [where orders = "pg 0", OF rq body(2,3) ne nl lim])
  have later: "\<forall>i<m. answers_page env (length (sent ?st1) + i)
                  (''/SalesOrders'', page_params flds order_by where_clause (page + 1 + i)) (pg (Suc i))
              \<and> 250 \<le> length (pg (Suc i))"
  proof (intro allI impI)
    fix i assume "i < m"
    then have "Suc i < Suc m" by simp
    with Suc.prems(3) have "answers_page env (length (sent st) + Suc i)
        (''/SalesOrders'', page_params flds order_by where_clause (page + Suc i)) (pg (Suc i))
        \<and> 250 \<le> length (pg (Suc i))" by blast
    then show "answers_page env (length (sent ?st1) + i)
                  (''/SalesOrders'', page_params flds order_by where_clause (page + 1 + i)) (pg (Suc i))
              \<and> 250 \<le> length (pg (Suc i))" by simp
  qed
  from Suc.prems(2) have "page + 1 + m \<le> 100" by simp
  from Suc.IH [OF Suc.prems(1) this later, of "all_orders @ pg 0"]
  have "fetch_pages env flds order_by where_clause (page + 1) (all_orders @ pg 0) ?st1
         = fetch_pages env flds order_by where_clause (page + 1 + m)
             ((all_orders @ pg 0) @ concat (map (\<lambda>i. pg (Suc i)) [0..<m]))
             (?st1\<lparr>sent := sent ?st1
                @ map (\<lambda>i. (''/SalesOrders'', page_params flds order_by where_clause (page + 1 + i))) [0..<m]\<rparr>)" .
  also have "(all_orders @ pg 0) @ concat (map (\<lambda>i. pg (Suc i)) [0..<m])
         = all_orders @ concat (map pg [0..<Suc m])"
    by (simp add: map_upt_Suc del: upt_Suc)
  also have "?st1\<lparr>sent := sent ?st1
                @ map (\<lambda>i. (''/SalesOrders'', page_params flds order_by where_clause (page + 1 + i))) [0..<m]\<rparr>
         = st\<lparr>sent := sent st
                @ map (\<lambda>i. (''/SalesOrders'', page_params flds order_by where_clause (page + i))) [0..<Suc m]\<rparr>"
    by (simp add: send_def map_upt_Suc del: upt_Suc)
  also have "page + 1 + m = page + Suc m" by simp
  finally show ?case using step by simp
qed

lemma fetch_answered_short_page:
  assumes "credentials env"
    and "answers_page env (length (sent st)) (''/SalesOrders'', page_params flds order_by where_clause page) records"
    and "length records < 250"
  shows "fetch_pages env flds order_by where_clause page all_orders st
         = (Inr (all_orders @ records), send ''/SalesOrders'' (page_params flds order_by where_clause page) st)"
proof -
  let ?ps = "page_params flds order_by where_clause page"
  from assms(2) obtain resp_text body where body: "remote env (length (sent st)) ''/SalesOrders'' ?ps = Response 200 resp_text (Inr body)"
    "body \<noteq> PNone" "response_orders body = Some records"
    by (rule answers_pageD)
  from request_json_answer [OF assms(1) body(1)] body(2,3) assms(3) show ?thesis
    by (simp add: fetch_pages.simps [of env flds order_by where_clause page all_orders st] rows_per_page_def)
qed

text \<open>
  Claim C4. When the remote source answers the requests for pages 1 to \<open>m\<close>, each for 250
  rows, with full pages (at least 250 records each) and the request for page \<open>m + 1\<close> with
  fewer than 250 records, each at the first attempt, the fetcher sends exactly the
  \<open>m + 1\<close> requests for pages 1, 2, ... in turn, each for 250 rows, stops there, and hands
  all the records of these pages, in order, to the classifier. With a source of pages of
  250, 250 and 40 records that is 3 requests and 540 records.
\<close>

theorem paginates_until_short_page:
  assumes "credentials env" and "m < 100"
    and "\<forall>i<m. answers_page env (length (sent st) + i) (page_request (stage_filter excluded_stages) (i + 1)) (pg i)
              \<and> 250 \<le> length (pg i)"
    and "answers_page env (length (sent st) + m) (page_request (stage_filter excluded_stages) (m + 1)) last_page"
    and "length last_page < 250"
  shows "fetch_sales_orders v sf today env excluded_stages st
         = (if concat (map pg [0..<m]) @ last_page = [] then Inr []
            else process_orders_dataframe v sf today (concat (map pg [0..<m]) @ last_page),
            st\<lparr>sent := sent st
                 @ map (\<lambda>i. page_request (stage_filter excluded_stages) (i + 1)) [0..<m + 1]\<rparr>)"
proof -
  let ?F = "join '','' SALES_ORDER_FIELDS"
  let ?O = "''EstimatedDeliveryDate ASC, CreatedDate ASC''"
  let ?W = "build_where_clause excluded_stages"
  let ?req = "\<lambda>i. (''/SalesOrders'', page_params ?F ?O ?W (1 + i))"
  let ?stm = "st\<lparr>sent := sent st @ map ?req [0..<m]\<rparr>"
  have p: "page_request (stage_filter excluded_stages) j = (''/SalesOrders'', page_params ?F ?O ?W j)" for j
    by (rule page_request_params)
  from assms(2) have lim: "1 + m \<le> 100" by simp
  from assms(3) have full: "\<forall>i<m. answers_page env (length (sent st) + i) (''/SalesOrders'', page_params ?F ?O ?W (1 + i)) (pg i)
              \<and> 250 \<le> length (pg i)"
    by (simp add: p)
  from assms(4) have short: "answers_page env (length (sent ?stm)) (''/SalesOrders'', page_params ?F ?O ?W (1 + m)) last_page"
    by (simp add: p)
  have "fetch_pages env ?F ?O ?W 1 [] st = fetch_pages env ?F ?O ?W (1 + m) ([] @ concat (map pg [0..<m])) ?stm"
    by (rule fetch_answered_pages [OF assms(1) lim full])
  also have "\<dots> = (Inr (([] @ concat (map pg [0..<m])) @ last_page), send ''/SalesOrders'' (page_params ?F ?O ?W (1 + m)) ?stm)"
    by (rule fetch_answered_short_page [OF assms(1) short assms(5)])
  also have "send ''/SalesOrders'' (page_params ?F ?O ?W (1 + m)) ?stm
             = st\<lparr>sent := sent st @ map (\<lambda>i. page_request (stage_filter excluded_stages) (i + 1)) [0..<m + 1]\<rparr>"
    by (simp add: send_def p)
  finally have "fetch_pages env ?F ?O ?W 1 [] st
      = (Inr (concat (map pg [0..<m]) @ last_page),
         st\<lparr>sent := sent st @ map (\<lambda>i. page_request (stage_filter excluded_stages) (i + 1)) [0..<m + 1]\<rparr>)"
    by simp
  from fetch_sales_orders_run [OF this] show ?thesis by simp
qed

theorem paginates_until_short_page_witness:
  "fetch_sales_orders AppPy (\<lambda>s. None) today0 paged_env [] io0
     = (Inr (replicate 540 late_row),
        \<lparr>sent = [page_request None 1, page_request None 2, page_request None 3],
         slept = [], shown = []\<rparr>)
   \<and> map (\<lambda>request. (p_page (snd request), p_rows (snd request)))
        [page_request None 1, page_request None 2, page_request None 3]
      = [(1, 250), (2, 250), (3, 250)]
   \<and> length (replicate 540 late_row) = 540"
proof -
  have c: "credentials paged_env" by (simp add: paged_env_def)
  have m: "(2 :: nat) < 100" by simp
  have f: "stage_filter [] = None" by (simp add: stage_filter_def)
  have h: "\<forall>i<2. answers_page paged_env (length (sent io0) + i) (page_request (stage_filter []) (i + 1))
                    ((\<lambda>i. replicate 250 late_order) i)
              \<and> 250 \<le> length ((\<lambda>i. replicate 250 late_order) i)"
    by (auto simp: answers_page_def paged_env_def page_request_def f less_2_cases_iff Let_def)
  have l: "answers_page paged_env (length (sent io0) + 2) (page_request (stage_filter []) (2 + 1)) (replicate 40 late_order)"
    by (simp add: answers_page_def paged_env_def page_request_def f Let_def)
  have s: "length (replicate 40 late_order) < 250"
    by simp
  have all: "concat (map (\<lambda>i. replicate 250 late_order) [0..<2]) @ replicate 40 late_order
             = replicate 540 late_order"
    by (simp add: upt_2 replicate_add [symmetric])
  have ne: "replicate 540 late_order \<noteq> []" by simp
  have st: "io0\<lparr>sent := sent io0 @ map (\<lambda>i. page_request (stage_filter []) (i + 1)) [0..<2 + 1]\<rparr>
            = \<lparr>sent = [page_request None 1, page_request None 2, page_request None 3],
         slept = [], shown = []\<rparr>"
    by (simp add: io0_def f upt_rec [of 0 3] upt_rec [of 1 3] upt_rec [of 2 3] upt_rec [of 3 3] numeral_3_eq_3 numeral_2_eq_2)
  have rq: "map (\<lambda>request. (p_page (snd request), p_rows (snd request)))
        [page_request None 1, page_request None 2, page_request None 3]
      = [(1, 250), (2, 250), (3, 250)]"
    by (simp add: page_request_def)
  from paginates_until_short_page [of paged_env 2 io0 "[]" "\<lambda>i. replicate 250 late_order"
        "replicate 40 late_order" AppPy "\<lambda>s. None" today0, OF c m h l s]
  have "fetch_sales_orders AppPy (\<lambda>s. None) today0 paged_env [] io0
     = (Inr (replicate 540 late_row),
        \<lparr>sent = [page_request None 1, page_request None 2, page_request None 3],
         slept = [], shown = []\<rparr>)"
    unfolding all st by (simp only: ne if_False late_orders_frame)
  with rq show ?thesis by simp
qed

text \<open>
  Claim C5. When all three attempts for a page fail with transient errors, the loop ends
  with exactly the records accumulated so far, the last of the three errors is shown and
  no further request is sent. So a run in which one or more full pages were fetched and
  the next page fails three times returns the (non-empty) records of those pages to the
  classifier.
\<close>

theorem partial_result_after_failed_page:
  "(credentials env
     \<and> transient_error (remote env (length (sent st)) ''/SalesOrders'' (page_params flds order_by where_clause page)) = Some e1
     \<and> transient_error (remote env (length (sent st) + 1) ''/SalesOrders'' (page_params flds order_by where_clause page)) = Some e2
     \<and> transient_error (remote env (length (sent st) + 2) ''/SalesOrders'' (page_params flds order_by where_clause page)) = Some e3
    \<longrightarrow> fetch_pages env flds order_by where_clause page all_orders st
         = (Inr all_orders,
            st\<lparr>sent := sent st @ replicate 3 (''/SalesOrders'', page_params flds order_by where_clause page),
               slept := slept st @ [1, 2],
               shown := shown st @ [ApiError 3 (Some e3)]\<rparr>))
   \<and> (credentials env \<and> 0 < m \<and> m < 100
     \<and> (\<forall>i<m. serves_page env (length (sent st0) + i) (sales_orders_params excluded_stages (i + 1)) (pg i)
               \<and> rows_per_page \<le> length (pg i))
     \<and> transient_error (remote env (length (sent st0) + m) ''/SalesOrders'' (sales_orders_params excluded_stages (m + 1))) = Some e1
     \<and> transient_error (remote env (length (sent st0) + m + 1) ''/SalesOrders'' (sales_orders_params excluded_stages (m + 1))) = Some e2
     \<and> transient_error (remote env (length (sent st0) + m + 2) ''/SalesOrders'' (sales_orders_params excluded_stages (m + 1))) = Some e3
    \<longrightarrow> concat (map pg [0..<m]) \<noteq> []
       \<and> fetch_sales_orders v sf today env excluded_stages st0
         = (process_orders_dataframe v sf today (concat (map pg [0..<m])),
            st0\<lparr>sent := sent st0
                   @ map (\<lambda>i. (''/SalesOrders'', sales_orders_params excluded_stages (i + 1))) [0..<m]
                   @ replicate 3 (''/SalesOrders'', sales_orders_params excluded_stages (m + 1)),
                slept := slept st0 @ [1, 2],
                shown := shown st0 @ [ApiError 3 (Some e3)]\<rparr>))"
proof (intro conjI impI)
  assume a: "credentials env
     \<and> transient_error (remote env (length (sent st)) ''/SalesOrders'' (page_params flds order_by where_clause page)) = Some e1
     \<and> transient_error (remote env (length (sent st) + 1) ''/SalesOrders'' (page_params flds order_by where_clause page)) = Some e2
     \<and> transient_error (remote env (length (sent st) + 2) ''/SalesOrders'' (page_params flds order_by where_clause page)) = Some e3"
  then show "fetch_pages env flds order_by where_clause page all_orders st
         = (Inr all_orders,
            st\<lparr>sent := sent st @ replicate 3 (''/SalesOrders'', page_params flds order_by where_clause page),
               slept := slept st @ [1, 2],
               shown := shown st @ [ApiError 3 (Some e3)]\<rparr>)"
    by (intro fetch_failed_page) simp_all
next
  let ?F = "join '','' SALES_ORDER_FIELDS"
  let ?O = "''EstimatedDeliveryDate ASC, CreatedDate ASC''"
  let ?W = "build_where_clause excluded_stages"
  let ?req = "\<lambda>i. (''/SalesOrders'', page_params ?F ?O ?W (1 + i))"
  let ?stm = "st0\<lparr>sent := sent st0 @ map ?req [0..<m]\<rparr>"
  assume b: "credentials env \<and> 0 < m \<and> m < 100
     \<and> (\<forall>i<m. serves_page env (length (sent st0) + i) (sales_orders_params excluded_stages (i + 1)) (pg i)
               \<and> rows_per_page \<le> length (pg i))
     \<and> transient_error (remote env (length (sent st0) + m) ''/SalesOrders'' (sales_orders_params excluded_stages (m + 1))) = Some e1
     \<and> transient_error (remote env (length (sent st0) + m + 1) ''/SalesOrders'' (sales_orders_params excluded_stages (m + 1))) = Some e2
     \<and> transient_error (remote env (length (sent st0) + m + 2) ''/SalesOrders'' (sales_orders_params excluded_stages (m + 1))) = Some e3"
  have p: "sales_orders_params excluded_stages j = page_params ?F ?O ?W j" for j
    by (simp add: sales_orders_params_def)
  from b have c: "credentials env" and m: "0 < m" and lim: "1 + m \<le> 100" by simp_all
  from b have full: "\<forall>i<m. serves_page env (length (sent st0) + i) (page_params ?F ?O ?W (1 + i)) (pg i)
              \<and> rows_per_page \<le> length (pg i)"
    by (simp add: p)
  from b have f1: "transient_error (remote env (length (sent ?stm)) ''/SalesOrders'' (page_params ?F ?O ?W (1 + m))) = Some e1"
    and f2: "transient_error (remote env (length (sent ?stm) + 1) ''/SalesOrders'' (page_params ?F ?O ?W (1 + m))) = Some e2"
    and f3: "transient_error (remote env (length (sent ?stm) + 2) ''/SalesOrders'' (page_params ?F ?O ?W (1 + m))) = Some e3"
    by (simp_all add: p)
  from full m have "pg 0 \<noteq> []" by (auto simp: rows_per_page_def)
  with m have "pg 0 \<in> set (map pg [0..<m])" by auto
  with \<open>pg 0 \<noteq> []\<close> show ne: "concat (map pg [0..<m]) \<noteq> []"
    by (auto simp del: set_map set_upt)
  have "fetch_pages env ?F ?O ?W 1 [] st0 = fetch_pages env ?F ?O ?W (1 + m) ([] @ concat (map pg [0..<m])) ?stm"
    by (rule fetch_full_pages [OF c lim full])
  also have "\<dots> = (Inr ([] @ concat (map pg [0..<m])),
            ?stm\<lparr>sent := sent ?stm @ replicate 3 (''/SalesOrders'', page_params ?F ?O ?W (1 + m)),
               slept := slept ?stm @ [1, 2],
               shown := shown ?stm @ [ApiError 3 (Some e3)]\<rparr>)"
    by (rule fetch_failed_page [OF c f1 f2 f3])
  finally have "fetch_pages env ?F ?O ?W 1 [] st0
      = (Inr (concat (map pg [0..<m])),
         st0\<lparr>sent := sent st0
                   @ map (\<lambda>i. (''/SalesOrders'', sales_orders_params excluded_stages (i + 1))) [0..<m]
                   @ replicate 3 (''/SalesOrders'', sales_orders_params excluded_stages (m + 1)),
                slept := slept st0 @ [1, 2],
                shown := shown st0 @ [ApiError 3 (Some e3)]\<rparr>)"
    by (simp add: p)
  from fetch_sales_orders_run [OF this] ne
  show "fetch_sales_orders v sf today env excluded_stages st0
         = (process_orders_dataframe v sf today (concat (map pg [0..<m])),
            st0\<lparr>sent := sent st0
                   @ map (\<lambda>i. (''/SalesOrders'', sales_orders_params excluded_stages (i + 1))) [0..<m]
                   @ replicate 3 (''/SalesOrders'', sales_orders_params excluded_stages (m + 1)),
                slept := slept st0 @ [1, 2],
                shown := shown st0 @ [ApiError 3 (Some e3)]\<rparr>)"
    by auto
qed

theorem partial_result_after_failed_page_witness:
  "fetch_pages failing_env (join '','' SALES_ORDER_FIELDS) ''EstimatedDeliveryDate ASC, CreatedDate ASC'' [] 2
       (replicate 250 late_order)
       \<lparr>sent = [(''/SalesOrders'', sales_orders_params [] 1)], slept = [], shown = []\<rparr>
     = (Inr (replicate 250 late_order),
        \<lparr>sent = [(''/SalesOrders'', sales_orders_params [] 1), (''/SalesOrders'', sales_orders_params [] 2),
                 (''/SalesOrders'', sales_orders_params [] 2), (''/SalesOrders'', sales_orders_params [] 2)],
         slept = [1, 2], shown = [ApiError 3 (Some CouldNotConnect)]\<rparr>)
   \<and> fetch_sales_orders AppPy (\<lambda>s. None) today0 failing_env [] io0
     = (Inr (replicate 250 late_row),
        \<lparr>sent = [(''/SalesOrders'', sales_orders_params [] 1), (''/SalesOrders'', sales_orders_params [] 2),
                 (''/SalesOrders'', sales_orders_params [] 2), (''/SalesOrders'', sales_orders_params [] 2)],
         slept = [1, 2], shown = [ApiError 3 (Some CouldNotConnect)]\<rparr>)
   \<and> replicate 250 late_row \<noteq> []"
proof -
  let ?F = "join '','' SALES_ORDER_FIELDS"
  let ?O = "''EstimatedDeliveryDate ASC, CreatedDate ASC''"
  let ?st1 = "\<lparr>sent = [(''/SalesOrders'', sales_orders_params [] 1)], slept = [], shown = []\<rparr>"
  note t = partial_result_after_failed_page [where env = failing_env and st = ?st1 and flds = ?F
      and order_by = ?O and where_clause = "[]" and page = 2 and ?e1.0 = TimedOut
      and ?e2.0 = "HttpError 503 ''Service Unavailable''" and ?e3.0 = CouldNotConnect
      and all_orders = "replicate 250 late_order" and m = 1 and ?st0.0 = io0 and excluded_stages = "[]"
      and pg = "\<lambda>i. replicate 250 late_order" and v = AppPy and sf = "\<lambda>s. None" and today = today0]
  have p: "sales_orders_params [] j = page_params ?F ?O [] j" for j
    by (simp add: sales_orders_params_def build_where_clause_def)
  have one: "fetch_pages failing_env ?F ?O [] 2 (replicate 250 late_order) ?st1
     = (Inr (replicate 250 late_order),
        ?st1\<lparr>sent := sent ?st1 @ replicate 3 (''/SalesOrders'', page_params ?F ?O [] 2),
               slept := slept ?st1 @ [1, 2],
               shown := shown ?st1 @ [ApiError 3 (Some CouldNotConnect)]\<rparr>)"
    by (rule t [THEN conjunct1, THEN mp]) (simp add: failing_env_def page_params_def)
  have two: "concat (map (\<lambda>i. replicate 250 late_order) [0..<1]) \<noteq> []
     \<and> fetch_sales_orders AppPy (\<lambda>s. None) today0 failing_env [] io0
         = (process_orders_dataframe AppPy (\<lambda>s. None) today0 (concat (map (\<lambda>i. replicate 250 late_order) [0..<1])),
            io0\<lparr>sent := sent io0
                   @ map (\<lambda>i. (''/SalesOrders'', sales_orders_params [] (i + 1))) [0..<1]
                   @ replicate 3 (''/SalesOrders'', sales_orders_params [] (1 + 1)),
                slept := slept io0 @ [1, 2],
                shown := shown io0 @ [ApiError 3 (Some CouldNotConnect)]\<rparr>)"
    by (rule t [THEN conjunct2, THEN mp])
       (simp add: failing_env_def sales_orders_params_def page_params_def serves_page_def rows_per_page_def io0_def)
  have s1: "?st1\<lparr>sent := sent ?st1 @ replicate 3 (''/SalesOrders'', page_params ?F ?O [] 2),
               slept := slept ?st1 @ [1, 2],
               shown := shown ?st1 @ [ApiError 3 (Some CouldNotConnect)]\<rparr>
      = \<lparr>sent = [(''/SalesOrders'', sales_orders_params [] 1), (''/SalesOrders'', sales_orders_params [] 2),
                 (''/SalesOrders'', sales_orders_params [] 2), (''/SalesOrders'', sales_orders_params [] 2)],
         slept = [1, 2], shown = [ApiError 3 (Some CouldNotConnect)]\<rparr>"
    by (simp add: p numeral_3_eq_3)
  have s2: "io0\<lparr>sent := sent io0
                   @ map (\<lambda>i. (''/SalesOrders'', sales_orders_params [] (i + 1))) [0..<1]
                   @ replicate 3 (''/SalesOrders'', sales_orders_params [] (1 + 1)),
                slept := slept io0 @ [1, 2],
                shown := shown io0 @ [ApiError 3 (Some CouldNotConnect)]\<rparr>
      = \<lparr>sent = [(''/SalesOrders'', sales_orders_params [] 1), (''/SalesOrders'', sales_orders_params [] 2),
                 (''/SalesOrders'', sales_orders_params [] 2), (''/SalesOrders'', sales_orders_params [] 2)],
         slept = [1, 2], shown = [ApiError 3 (Some CouldNotConnect)]\<rparr>"
    by (simp add: io0_def numeral_3_eq_3 numeral_2_eq_2)
  have d: "process_orders_dataframe AppPy (\<lambda>s. None) today0 (concat (map (\<lambda>i. replicate 250 late_order) [0..<1]))
           = Inr (replicate 250 late_row)"
    by (simp add: late_orders_frame)
  have r: "replicate 250 late_row \<noteq> []" by simp
  from one [unfolded s1] two [THEN conjunct2, unfolded s2 d] r show ?thesis
    by (intro conjI)
qed

lemma forbidden_second_page:
  "fetch_pages forbidden_env flds order_by where_clause 2 all_orders st
     = (Inl StopException,
        show_message AccessDenied (send ''/SalesOrders'' (page_params flds order_by where_clause 2) st))"
  by (subst fetch_pages.simps) (simp add: request_json_unfold forbidden_env_def page_params_def)

lemma forbidden_run:
  "fetch_sales_orders AppPy (\<lambda>s. None) today0 forbidden_env [] io0
     = (Inl StopException,
        \<lparr>sent = [(''/SalesOrders'', sales_orders_params [] 1), (''/SalesOrders'', sales_orders_params [] 2)],
         slept = [], shown = [AccessDenied]\<rparr>)"
proof -
  let ?F = "join '','' SALES_ORDER_FIELDS"
  let ?O = "''EstimatedDeliveryDate ASC, CreatedDate ASC''"
  let ?st1 = "io0\<lparr>sent := sent io0 @ map (\<lambda>i. (''/SalesOrders'', page_params ?F ?O [] (1 + i))) [0..<1]\<rparr>"
  have c: "credentials forbidden_env" by (simp add: forbidden_env_def)
  have p: "sales_orders_params [] j = page_params ?F ?O [] j" for j
    by (simp add: sales_orders_params_def build_where_clause_def)
  have h: "\<forall>i<1. serves_page forbidden_env (length (sent io0) + i) (page_params ?F ?O [] (1 + i))
                    ((\<lambda>i. replicate 250 late_order) i)
              \<and> rows_per_page \<le> length ((\<lambda>i. replicate 250 late_order) i)"
    using first_page_served [of forbidden_env] by (simp add: p)
  have "fetch_pages forbidden_env ?F ?O [] 1 [] io0
        = fetch_pages forbidden_env ?F ?O [] (1 + 1) ([] @ concat (map (\<lambda>i. replicate 250 late_order) [0..<1])) ?st1"
    by (rule fetch_full_pages [OF c _ h]) simp
  also have "\<dots> = (Inl StopException,
        show_message AccessDenied (send ''/SalesOrders'' (page_params ?F ?O [] 2) ?st1))"
    by (simp only: one_add_one forbidden_second_page)
  also have "show_message AccessDenied (send ''/SalesOrders'' (page_params ?F ?O [] 2) ?st1)
       = \<lparr>sent = [(''/SalesOrders'', sales_orders_params [] 1), (''/SalesOrders'', sales_orders_params [] 2)],
         slept = [], shown = [AccessDenied]\<rparr>"
    by (simp add: p io0_def send_def show_message_def)
  finally show ?thesis
    by (simp add: fetch_sales_orders_def build_where_clause_def)
qed

text \<open>
  Claim C9. In every run of the fetcher, a request answered with status 401 or 403 is
  the last request of the run: it is not retried, the matching error is the last message
  shown, and the run ends with the exception that stops the script, so no data frame is
  returned, whatever pages were fetched before.
\<close>

theorem auth_failure_halts:
  assumes "fetch_sales_orders v sf today env excluded_stages st = (res, st')"
    and "length (sent st) \<le> k" and "k < length (sent st')"
    and "auth_message (received env st' k) = Some m"
  shows "res = Inl StopException \<and> Suc k = length (sent st') \<and> shown st' \<noteq> [] \<and> last (shown st') = m"
proof -
  let ?run = "fetch_pages env (join '','' SALES_ORDER_FIELDS) ''EstimatedDeliveryDate ASC, CreatedDate ASC''
                (build_where_clause excluded_stages) 1 [] st"
  obtain r0 st0 where run: "?run = (r0, st0)" by (cases ?run)
  with assms(1) have st: "st0 = st'" and res: "r0 = Inl StopException \<Longrightarrow> res = Inl StopException"
    by (auto simp: fetch_sales_orders_def split: sum.splits)
  from fetch_pages_auth [OF run [unfolded st] assms(2) assms(3) assms(4)] res
  show ?thesis by simp
qed

theorem auth_failure_halts_witness:
  "fetch_sales_orders AppPy (\<lambda>s. None) today0 forbidden_env [] io0
     = (Inl StopException,
        \<lparr>sent = [(''/SalesOrders'', sales_orders_params [] 1), (''/SalesOrders'', sales_orders_params [] 2)],
         slept = [], shown = [AccessDenied]\<rparr>)
   \<and> length (sent io0) \<le> 1
   \<and> auth_message (remote forbidden_env 1 ''/SalesOrders'' (sales_orders_params [] 2)) = Some AccessDenied
   \<and> auth_message (remote forbidden_env 0 ''/SalesOrders'' (sales_orders_params [] 1)) = None"
proof -
  let ?st' = "\<lparr>sent = [(''/SalesOrders'', sales_orders_params [] 1), (''/SalesOrders'', sales_orders_params [] 2)],
         slept = [], shown = [AccessDenied]\<rparr>"
  have lo: "length (sent io0) \<le> 1" by (simp add: io0_def)
  have hi: "1 < length (sent ?st')" by simp
  have au: "auth_message (received forbidden_env ?st' 1) = Some AccessDenied"
    by (simp add: received_def forbidden_env_def sales_orders_params_def page_params_def)
  have a0: "auth_message (remote forbidden_env 0 ''/SalesOrders'' (sales_orders_params [] 1)) = None"
    by (simp add: forbidden_env_def sales_orders_params_def page_params_def)
  from auth_failure_halts [OF forbidden_run lo hi au] forbidden_run lo au a0
  show ?thesis by (simp add: received_def)
qed

subsection \<open>Board sections\<close>

lemma set_sort_values [simp]: "set (sort_values col ascending df) = set df"
  by (auto simp: sort_values_def Let_def)

lemma sections_with_Nil [simp]: "sections_with r [] = []"
  by (simp add: sections_with_def)

lemma sections_with_append [simp]:
  "sections_with r (a @ b) = sections_with r a @ sections_with r b"
  by (simp add: sections_with_def)

text \<open>A card raises \<^verbatim>\<open>ValueError\<close> or is the row; the cards of a frame are its rows unless
  one of them raises.\<close>

lemma render_job_card_cases:
  "render_job_card v dtypes job = Inl ValueError \<or> render_job_card v dtypes job = Inr job"
  by (cases v) simp_all

lemma render_cards_eq:
  "render_cards v dtypes jobs
     = (if \<exists>job \<in> set jobs. render_job_card v dtypes job = Inl ValueError then Inl ValueError else Inr jobs)"
proof (induction jobs)
  case Nil
  then show ?case by simp
next
  case (Cons job jobs)
  from render_job_card_cases [of v dtypes job] Cons show ?case
    by auto
qed

lemma cards_section_eq:
  "cards_section v dtypes title jobs
     = (if \<exists>job \<in> set jobs. render_job_card v dtypes job = Inl ValueError then ([], Some ValueError)
        else ([(title, jobs)], None))"
  by (simp add: cards_section_def render_cards_eq)

lemma fst_then_render: "fst (then_render a b) = (if snd a = None then fst a @ fst b else fst a)"
  by (cases a; cases b; cases "snd a") auto

lemma snd_then_render [simp]: "snd (then_render a b) = (if snd a = None then snd b else snd a)"
  by (cases a; cases b; cases "snd a") auto

lemma sections_with_then_render [simp]:
  "sections_with r (fst (then_render a b))
     = sections_with r (fst a) @ (if snd a = None then sections_with r (fst b) else [])"
  by (simp add: fst_then_render)

lemma sections_with_column [simp]:
  "sections_with r (fst (render_board_column v dtypes title jobs_df))
     = (if r \<in> set jobs_df \<and> \<not> (\<exists>job \<in> set jobs_df. render_job_card v dtypes job = Inl ValueError)
        then [title] else [])"
  by (simp add: sections_with_def render_board_column_def cards_section_eq)

lemma snd_column [simp]:
  "snd (render_board_column v dtypes title jobs_df)
     = (if \<exists>job \<in> set jobs_df. render_job_card v dtypes job = Inl ValueError then Some ValueError else None)"
  by (simp add: render_board_column_def cards_section_eq)

lemma sections_with_working_on [simp]:
  "sections_with r (fst (render_currently_working_on v dtypes df))
     = (if r \<in> set df \<and> Stage r = PStr (processing_stage v)
           \<and> \<not> (\<exists>job \<in> set df. Stage job = PStr (processing_stage v)
                                  \<and> render_job_card v dtypes job = Inl ValueError)
        then [working_on_title v] else [])"
  by (auto simp: sections_with_def render_currently_working_on_def cards_section_eq Let_def filter_empty_conv)

lemma snd_working_on [simp]:
  "snd (render_currently_working_on v dtypes df)
     = (if \<exists>job \<in> set df. Stage job = PStr (processing_stage v) \<and> render_job_card v dtypes job = Inl ValueError
        then Some ValueError else None)"
  by (auto simp: render_currently_working_on_def cards_section_eq Let_def filter_empty_conv)

lemma sections_with_to_collect [simp]:
  "sections_with r (fst (render_to_collect dtypes df))
     = (if r \<in> set df \<and> Stage r = PStr ''Workshop - To Collect'' then [''To Collect''] else [])"
  by (auto simp: sections_with_def render_to_collect_def cards_section_eq Let_def filter_empty_conv)

lemma sections_with_overdue [simp]:
  "sections_with r (fst (render_overdue dtypes df)) = (if r \<in> set df \<and> IsOverdue r then [''Overdue''] else [])"
  by (auto simp: sections_with_def render_overdue_def cards_section_eq Let_def filter_empty_conv)

lemma sections_with_needs_etd [simp]:
  "sections_with r (fst (render_needs_etd dtypes df))
     = (if r \<in> set df \<and> \<not> IsOverdue r \<and> \<not> IsDueSoon r \<and> \<not> IsOnTrack r then [''Needs ETD''] else [])"
  by (auto simp: sections_with_def render_needs_etd_def cards_section_eq Let_def filter_empty_conv)

lemma snd_test_sections [simp]:
  "snd (render_to_collect dtypes df) = None" "snd (render_overdue dtypes df) = None"
  "snd (render_needs_etd dtypes df) = None"
  by (simp_all add: render_to_collect_def render_overdue_def render_needs_etd_def cards_section_eq Let_def)

















section \<open>Date round trip\<close>

subsection \<open>Digits and padded numbers\<close>

lemma digit_char_mod: "digit_char (n mod 10) = digit_char n"
  by (simp add: digit_char_def)

lemma digit_value_digit_char: "a < 10 \<Longrightarrow> digit_value (digit_char a) = Some a"
  by (simp add: digit_value_def digit_char_def Let_def)

lemma digit_char_not:
  "digit_char n \<noteq> CHR '' ''" "digit_char n \<noteq> CHR ''+''" "digit_char n \<noteq> CHR ''Z''"
proof -
  have b: "48 + n mod 10 < 58" by (use mod_less_divisor [of 10 n] in linarith)
  then have m: "(48 + n mod 10) mod 256 = 48 + n mod 10" by simp
  show "digit_char n \<noteq> CHR '' ''" "digit_char n \<noteq> CHR ''+''" "digit_char n \<noteq> CHR ''Z''"
    using b by (simp_all add: digit_char_def char_of_eq_char m)
qed

lemma two_digits:
  assumes "n < 100"
  obtains a b where "pad2 n = [digit_char a, digit_char b]" and "a < 10" and "b < 10" and "n = 10 * a + b"
proof
  show "pad2 n = [digit_char (n div 10), digit_char (n mod 10)]"
    by (simp add: pad2_def digit_char_mod)
  show "n div 10 < 10" using assms by simp
  show "n mod 10 < 10" by simp
  show "n = 10 * (n div 10) + n mod 10" by simp
qed

lemma py_int_two: "a < 10 \<Longrightarrow> b < 10 \<Longrightarrow> py_int [digit_char a, digit_char b] = 10 * a + b"
  by (simp add: py_int_def digit_char_not digit_value_digit_char)

lemma py_int_pad2: "n < 100 \<Longrightarrow> py_int (pad2 n) = n"
  by (erule two_digits) (simp add: py_int_two)

lemma digits_simps [simp]: "digits []" "digits (c # cs) = ((\<exists>a<10. c = digit_char a) \<and> digits cs)"
  "digits (xs @ ys) = (digits xs \<and> digits ys)"
  by (auto simp: digits_def)

lemma is_digit_char: "\<exists>a<10. digit_char n = digit_char a"
  by (rule exI [of _ "n mod 10"]) (simp add: digit_char_mod)

lemma digits_pad [simp]: "digits (pad2 n)" "digits (pad4 n)" "digits (pad6 n)"
  by (simp_all add: pad2_def pad4_def pad6_def is_digit_char)

lemma length_pad [simp]: "length (pad2 n) = 2" "length (pad4 n) = 4" "length (pad6 n) = 6"
  by (simp_all add: pad2_def pad4_def pad6_def)

lemma match_any_digits:
  "digits ds \<Longrightarrow> match_atoms (replicate (length ds) (Digit 0 9)) (ds @ rest) = Some (ds, rest)"
  by (induction ds) (auto simp: digit_value_digit_char)

lemma py_int_pad4: "n < 10000 \<Longrightarrow> py_int (pad4 n) = n"
proof -
  assume n: "n < 10000"
  then have h: "n div 100 < 100" and l: "n mod 100 < 100" by simp_all
  from h obtain a b where hi: "pad2 (n div 100) = [digit_char a, digit_char b]" "a < 10" "b < 10"
    "n div 100 = 10 * a + b" by (rule two_digits)
  from l obtain c d where lo: "pad2 (n mod 100) = [digit_char c, digit_char d]" "c < 10" "d < 10"
    "n mod 100 = 10 * c + d" by (rule two_digits)
  have "py_int (pad4 n) = 10 * (10 * (10 * a + b) + c) + d"
    using hi lo by (simp add: pad4_def py_int_def digit_char_not digit_value_digit_char)
  also have "\<dots> = 100 * (n div 100) + n mod 100"
    using hi(4) lo(4) by simp
  finally show ?thesis by simp
qed

lemma py_int_pad6: "n < 1000000 \<Longrightarrow> py_int (pad6 n) = n"
proof -
  assume n: "n < 1000000"
  then have h: "n div 10000 < 100" and l: "n mod 10000 < 10000" by simp_all
  from h obtain a b where hi: "pad2 (n div 10000) = [digit_char a, digit_char b]" "a < 10" "b < 10"
    "n div 10000 = 10 * a + b" by (rule two_digits)
  from l have l1: "n mod 10000 div 100 < 100" and l2: "n mod 10000 mod 100 < 100" by simp_all
  from l1 obtain c d where mi: "pad2 (n mod 10000 div 100) = [digit_char c, digit_char d]" "c < 10" "d < 10"
    "n mod 10000 div 100 = 10 * c + d" by (rule two_digits)
  from l2 obtain e f where lo: "pad2 (n mod 10000 mod 100) = [digit_char e, digit_char f]" "e < 10" "f < 10"
    "n mod 10000 mod 100 = 10 * e + f" by (rule two_digits)
  have "py_int (pad6 n) = 10 * (10 * (10 * (10 * (10 * a + b) + c) + d) + e) + f"
    using hi mi lo by (simp add: pad6_def pad4_def py_int_def digit_char_not digit_value_digit_char)
  also have "\<dots> = 10000 * (n div 10000) + (100 * (n mod 10000 div 100) + n mod 10000 mod 100)"
    using hi(4) mi(4) lo(4) by simp
  also have "\<dots> = 10000 * (n div 10000) + n mod 10000"
    by (simp only: mult_div_mod_eq)
  finally show ?thesis by simp
qed

subsection \<open>The directives on padded fields\<close>

text \<open>On a field written by \<^verbatim>\<open>isoformat\<close> the first match of a directive is the whole field,
  whenever the rest of the format matches what follows the field.\<close>

lemma directive_Y:
  assumes "regex_match fs rest = Some (g, u)"
  shows "regex_match (Directive CHR ''Y'' # fs) (pad4 n @ rest) = Some ((CHR ''Y'', pad4 n) # g, u)"
proof -
  have "match_atoms [Digit 0 9, Digit 0 9, Digit 0 9, Digit 0 9] (pad4 n @ rest) = Some (pad4 n, rest)"
    using match_any_digits [of "pad4 n" rest] by (simp add: numeral_eq_Suc)
  with assms show ?thesis
    by (simp add: directive_regex_def)
qed

lemma directive_f:
  assumes "regex_match fs rest = Some (g, u)"
  shows "regex_match (Directive CHR ''f'' # fs) (pad6 n @ rest) = Some ((CHR ''f'', pad6 n) # g, u)"
proof -
  have "match_atoms (replicate 6 (Digit 0 9)) (pad6 n @ rest) = Some (pad6 n, rest)"
    using match_any_digits [of "pad6 n" rest] by simp
  with assms show ?thesis
    by (simp add: directive_regex_def)
qed

lemma directive_m:
  assumes "regex_match fs rest = Some (g, u)" and "1 \<le> n" and "n \<le> 12"
  shows "regex_match (Directive CHR ''m'' # fs) (pad2 n @ rest) = Some ((CHR ''m'', pad2 n) # g, u)"
proof -
  from assms(3) have "n < 100" by simp
  then obtain a b where p: "pad2 n = [digit_char a, digit_char b]" and a: "a < 10" and b: "b < 10"
    and n: "n = 10 * a + b" by (rule two_digits)
  from assms(2,3) n have "a = 0 \<and> 1 \<le> b \<or> a = 1 \<and> b \<le> 2" by arith
  with assms(1) a b show ?thesis
    unfolding p by (auto simp: directive_regex_def digit_value_digit_char)
qed

lemma directive_d:
  assumes "regex_match fs rest = Some (g, u)" and "1 \<le> n" and "n \<le> 31"
  shows "regex_match (Directive CHR ''d'' # fs) (pad2 n @ rest) = Some ((CHR ''d'', pad2 n) # g, u)"
proof -
  from assms(3) have "n < 100" by simp
  then obtain a b where p: "pad2 n = [digit_char a, digit_char b]" and a: "a < 10" and b: "b < 10"
    and n: "n = 10 * a + b" by (rule two_digits)
  from assms(2,3) n have "a = 0 \<and> 1 \<le> b \<or> a = 1 \<or> a = 2 \<or> a = 3 \<and> b \<le> 1" by arith
  with assms(1) a b show ?thesis
    unfolding p by (auto simp: directive_regex_def digit_value_digit_char)
qed

lemma directive_H:
  assumes "regex_match fs rest = Some (g, u)" and "n \<le> 23"
  shows "regex_match (Directive CHR ''H'' # fs) (pad2 n @ rest) = Some ((CHR ''H'', pad2 n) # g, u)"
proof -
  from assms(2) have "n < 100" by simp
  then obtain a b where p: "pad2 n = [digit_char a, digit_char b]" and a: "a < 10" and b: "b < 10"
    and n: "n = 10 * a + b" by (rule two_digits)
  from assms(2) n have "a = 0 \<or> a = 1 \<or> a = 2 \<and> b \<le> 3" by arith
  with assms(1) a b show ?thesis
    unfolding p by (auto simp: directive_regex_def digit_value_digit_char)
qed

lemma directive_M:
  assumes "regex_match fs rest = Some (g, u)" and "n \<le> 59"
  shows "regex_match (Directive CHR ''M'' # fs) (pad2 n @ rest) = Some ((CHR ''M'', pad2 n) # g, u)"
proof -
  from assms(2) have "n < 100" by simp
  then obtain a b where p: "pad2 n = [digit_char a, digit_char b]" and a: "a < 10" and b: "b < 10"
    and n: "n = 10 * a + b" by (rule two_digits)
  from assms(2) n have "a \<le> 5" by arith
  with assms(1) a b show ?thesis
    unfolding p by (auto simp: directive_regex_def digit_value_digit_char)
qed

lemma directive_S:
  assumes "regex_match fs rest = Some (g, u)" and "n \<le> 59"
  shows "regex_match (Directive CHR ''S'' # fs) (pad2 n @ rest) = Some ((CHR ''S'', pad2 n) # g, u)"
proof -
  from assms(2) have "n < 100" by simp
  then obtain a b where p: "pad2 n = [digit_char a, digit_char b]" and a: "a < 10" and b: "b < 10"
    and n: "n = 10 * a + b" by (rule two_digits)
  from assms(2) n have "a \<le> 5" by arith
  with assms(1) a b show ?thesis
    unfolding p by (auto simp: directive_regex_def digit_value_digit_char)
qed

subsection \<open>Parsed timestamps\<close>

text \<open>A timestamp that \<^verbatim>\<open>strptime\<close> returns passed the checks of the constructor.\<close>

lemma first_some_Some: "first_some f xs = Some y \<Longrightarrow> \<exists>x \<in> set xs. f x = Some y"
  by (induction xs) (auto split: option.splits)

lemma datetime_new_Some:
  "datetime_new y m d hh mm ss us = Some t \<Longrightarrow>
     1 \<le> year t \<and> year t \<le> 9999 \<and> 1 \<le> month t \<and> month t \<le> 12 \<and> 1 \<le> day t \<and> day t \<le> 31
       \<and> hour t \<le> 23 \<and> minute t \<le> 59 \<and> second t \<le> 59 \<and> microsecond t \<le> 999999"
  by (auto simp: datetime_new_def days_in_month_def split: if_splits)

lemma strptime_Some:
  "strptime s fmt = Some t \<Longrightarrow>
     1 \<le> year t \<and> year t \<le> 9999 \<and> 1 \<le> month t \<and> month t \<le> 12 \<and> 1 \<le> day t \<and> day t \<le> 31
       \<and> hour t \<le> 23 \<and> minute t \<le> 59 \<and> second t \<le> 59 \<and> microsecond t \<le> 999999"
  unfolding strptime_def
  by (auto split: option.splits prod.splits if_splits dest: datetime_new_Some)

lemma parse_date_fields:
  assumes "parse_date v = Some t" and "\<forall>t'. v \<noteq> PDateTime t'"
  shows "1 \<le> year t \<and> year t \<le> 9999 \<and> 1 \<le> month t \<and> month t \<le> 12 \<and> 1 \<le> day t \<and> day t \<le> 31
       \<and> hour t \<le> 23 \<and> minute t \<le> 59 \<and> second t \<le> 59 \<and> microsecond t \<le> 999999"
proof (cases v)
  case (PStr s)
  with assms(1) obtain fmt where
    "strptime (str_remove ''Z'' (str_remove ''+00:00'' s)) (str_remove ''Z'' fmt) = Some t"
    by (auto dest: first_some_Some)
  then show ?thesis by (rule strptime_Some)
qed (use assms in auto)

subsection \<open>Parsing the ISO 8601 text of a timestamp\<close>

text \<open>The text holds no \<^verbatim>\<open>+\<close> and no \<^verbatim>\<open>Z\<close>, so the two replacements leave it as it is.\<close>

lemma str_remove_absent: "c \<notin> set s \<Longrightarrow> str_remove (c # cs) s = s"
  by (induction s) auto

lemma pad_chars:
  "CHR ''+'' \<notin> set (pad2 n)" "CHR ''Z'' \<notin> set (pad2 n)"
  "CHR ''+'' \<notin> set (pad4 n)" "CHR ''Z'' \<notin> set (pad4 n)"
  "CHR ''+'' \<notin> set (pad6 n)" "CHR ''Z'' \<notin> set (pad6 n)"
  by (simp_all add: pad2_def pad4_def pad6_def digit_char_not [symmetric])

lemma isoformat_chars: "CHR ''+'' \<notin> set (isoformat t)" "CHR ''Z'' \<notin> set (isoformat t)"
  by (simp_all add: isoformat_def isoformat_sep_def pad_chars)

lemma isoformat_stripped: "str_remove ''Z'' (str_remove ''+00:00'' (isoformat t)) = isoformat t"
  by (simp add: str_remove_absent isoformat_chars)

text \<open>The first match of \<^verbatim>\<open>%Y-%m-%dT%H:%M:%S\<close>, and of what follows it in a format,
  on an ISO 8601 text.\<close>

lemma match_seconds:
  assumes fs: "regex_match fs rest = Some (g, u)"
    and t: "1 \<le> month t" "month t \<le> 12" "1 \<le> day t" "day t \<le> 31"
      "hour t \<le> 23" "minute t \<le> 59" "second t \<le> 59"
  shows "regex_match (compile_format ''%Y-%m-%dT%H:%M:%S'' @ fs)
           (pad4 (year t) @ ''-'' @ pad2 (month t) @ ''-'' @ pad2 (day t) @ ''T'' @ pad2 (hour t)
              @ '':'' @ pad2 (minute t) @ '':'' @ pad2 (second t) @ rest)
         = Some ([(CHR ''Y'', pad4 (year t)), (CHR ''m'', pad2 (month t)), (CHR ''d'', pad2 (day t)),
                  (CHR ''H'', pad2 (hour t)), (CHR ''M'', pad2 (minute t)), (CHR ''S'', pad2 (second t))] @ g, u)"
proof -
  note s = directive_S [OF fs t(7)]
  have m: "regex_match (Lit CHR '':'' # Directive CHR ''S'' # fs) ('':'' @ pad2 (second t) @ rest)
            = Some ((CHR ''S'', pad2 (second t)) # g, u)"
    using s by simp
  note mm = directive_M [OF m t(6)]
  have h: "regex_match (Lit CHR '':'' # Directive CHR ''M'' # Lit CHR '':'' # Directive CHR ''S'' # fs)
             ('':'' @ pad2 (minute t) @ '':'' @ pad2 (second t) @ rest)
            = Some ((CHR ''M'', pad2 (minute t)) # (CHR ''S'', pad2 (second t)) # g, u)"
    using mm by simp
  note hh = directive_H [OF h t(5)]
  have d: "regex_match (Lit CHR ''T'' # Directive CHR ''H'' # Lit CHR '':'' # Directive CHR ''M''
                         # Lit CHR '':'' # Directive CHR ''S'' # fs)
             (''T'' @ pad2 (hour t) @ '':'' @ pad2 (minute t) @ '':'' @ pad2 (second t) @ rest)
            = Some ((CHR ''H'', pad2 (hour t)) # (CHR ''M'', pad2 (minute t)) # (CHR ''S'', pad2 (second t)) # g, u)"
    using hh by simp
  note dd = directive_d [OF d t(3,4)]
  have mo: "regex_match (Lit CHR ''-'' # Directive CHR ''d'' # Lit CHR ''T'' # Directive CHR ''H''
                         # Lit CHR '':'' # Directive CHR ''M'' # Lit CHR '':'' # Directive CHR ''S'' # fs)
             (''-'' @ pad2 (day t) @ ''T'' @ pad2 (hour t) @ '':'' @ pad2 (minute t) @ '':'' @ pad2 (second t) @ rest)
            = Some ((CHR ''d'', pad2 (day t)) # (CHR ''H'', pad2 (hour t)) # (CHR ''M'', pad2 (minute t))
                     # (CHR ''S'', pad2 (second t)) # g, u)"
    using dd by simp
  note mmo = directive_m [OF mo t(1,2)]
  have y: "regex_match (Lit CHR ''-'' # Directive CHR ''m'' # Lit CHR ''-'' # Directive CHR ''d''
                         # Lit CHR ''T'' # Directive CHR ''H''
                         # Lit CHR '':'' # Directive CHR ''M'' # Lit CHR '':'' # Directive CHR ''S'' # fs)
             (''-'' @ pad2 (month t) @ ''-'' @ pad2 (day t) @ ''T'' @ pad2 (hour t) @ '':'' @ pad2 (minute t)
                @ '':'' @ pad2 (second t) @ rest)
            = Some ((CHR ''m'', pad2 (month t)) # (CHR ''d'', pad2 (day t)) # (CHR ''H'', pad2 (hour t))
                     # (CHR ''M'', pad2 (minute t)) # (CHR ''S'', pad2 (second t)) # g, u)"
    using mmo by simp
  note yy = directive_Y [OF y, of "year t"]
  have c: "compile_format ''%Y-%m-%dT%H:%M:%S'' @ fs =
             Directive CHR ''Y'' # Lit CHR ''-'' # Directive CHR ''m'' # Lit CHR ''-'' # Directive CHR ''d''
               # Lit CHR ''T'' # Directive CHR ''H''
               # Lit CHR '':'' # Directive CHR ''M'' # Lit CHR '':'' # Directive CHR ''S'' # fs"
    by simp
  show ?thesis
    unfolding c using yy by simp
qed

lemma compile_fraction:
  "compile_format ''%Y-%m-%dT%H:%M:%S.%f'' = compile_format ''%Y-%m-%dT%H:%M:%S'' @ [Lit CHR ''.'', Directive CHR ''f'']"
  by simp

lemma strptime_whole_seconds:
  assumes t: "1 \<le> year t" "year t \<le> 9999" "1 \<le> month t" "month t \<le> 12" "1 \<le> day t" "day t \<le> 31"
      "hour t \<le> 23" "minute t \<le> 59" "second t \<le> 59"
    and v: "datetime_new (year t) (month t) (day t) (hour t) (minute t) (second t) (microsecond t) = Some t"
    and us: "microsecond t = 0"
  shows "strptime (isoformat t) ''%Y-%m-%dT%H:%M:%S'' = Some t"
proof -
  have "regex_match [] [] = Some ([], [])" by simp
  from match_seconds [OF this t(3-9)]
  have "regex_match (compile_format ''%Y-%m-%dT%H:%M:%S'') (isoformat t)
         = Some ([(CHR ''Y'', pad4 (year t)), (CHR ''m'', pad2 (month t)), (CHR ''d'', pad2 (day t)),
                  (CHR ''H'', pad2 (hour t)), (CHR ''M'', pad2 (minute t)), (CHR ''S'', pad2 (second t))], [])"
    using us by (simp add: isoformat_def isoformat_sep_def del: compile_format.simps)
  moreover have "year t < 10000" "month t < 100" "day t < 100" "hour t < 100" "minute t < 100" "second t < 100"
    using t by simp_all
  ultimately show ?thesis
    using v us by (simp add: strptime_def group_int_def py_int_pad2 py_int_pad4 del: compile_format.simps)
qed

text \<open>With a fraction the first format matches up to the seconds and leaves the
  fraction unconverted, a \<^verbatim>\<open>ValueError\<close>; the second format converts it.\<close>

lemma strptime_fraction_left:
  assumes t: "1 \<le> month t" "month t \<le> 12" "1 \<le> day t" "day t \<le> 31"
      "hour t \<le> 23" "minute t \<le> 59" "second t \<le> 59"
    and us: "microsecond t \<noteq> 0"
  shows "strptime (isoformat t) ''%Y-%m-%dT%H:%M:%S'' = None"
proof -
  have "regex_match [] (''.'' @ pad6 (microsecond t)) = Some ([], ''.'' @ pad6 (microsecond t))" by simp
  from match_seconds [OF this t]
  have "regex_match (compile_format ''%Y-%m-%dT%H:%M:%S'') (isoformat t)
         = Some ([(CHR ''Y'', pad4 (year t)), (CHR ''m'', pad2 (month t)), (CHR ''d'', pad2 (day t)),
                  (CHR ''H'', pad2 (hour t)), (CHR ''M'', pad2 (minute t)), (CHR ''S'', pad2 (second t))],
                 ''.'' @ pad6 (microsecond t))"
    using us by (simp add: isoformat_def isoformat_sep_def del: compile_format.simps)
  then show ?thesis
    by (simp add: strptime_def del: compile_format.simps)
qed

lemma strptime_fraction:
  assumes t: "1 \<le> year t" "year t \<le> 9999" "1 \<le> month t" "month t \<le> 12" "1 \<le> day t" "day t \<le> 31"
      "hour t \<le> 23" "minute t \<le> 59" "second t \<le> 59" "microsecond t \<le> 999999"
    and v: "datetime_new (year t) (month t) (day t) (hour t) (minute t) (second t) (microsecond t) = Some t"
    and us: "microsecond t \<noteq> 0"
  shows "strptime (isoformat t) ''%Y-%m-%dT%H:%M:%S.%f'' = Some t"
proof -
  have "regex_match [] [] = Some ([], [])" by simp
  from directive_f [OF this, of "microsecond t"]
  have "regex_match [Lit CHR ''.'', Directive CHR ''f''] (''.'' @ pad6 (microsecond t) @ [])
          = Some ([(CHR ''f'', pad6 (microsecond t))], [])"
    by simp
  from match_seconds [OF this t(3-9)]
  have "regex_match (compile_format ''%Y-%m-%dT%H:%M:%S.%f'') (isoformat t)
         = Some ([(CHR ''Y'', pad4 (year t)), (CHR ''m'', pad2 (month t)), (CHR ''d'', pad2 (day t)),
                  (CHR ''H'', pad2 (hour t)), (CHR ''M'', pad2 (minute t)), (CHR ''S'', pad2 (second t)),
                  (CHR ''f'', pad6 (microsecond t))], [])"
    unfolding compile_fraction using us by (simp add: isoformat_def isoformat_sep_def del: compile_format.simps)
  moreover have "year t < 10000" "month t < 100" "day t < 100" "hour t < 100" "minute t < 100" "second t < 100"
    "microsecond t < 1000000"
    using t by simp_all
  ultimately show ?thesis
    using v by (simp add: strptime_def group_int_def py_int_pad2 py_int_pad4 py_int_pad6 del: compile_format.simps)
qed

lemma datetime_new_fields:
  "datetime_new y m d hh mm ss us = Some t \<Longrightarrow>
     datetime_new (year t) (month t) (day t) (hour t) (minute t) (second t) (microsecond t) = Some t"
  by (auto simp: datetime_new_def split: if_splits)

lemma strptime_fields:
  "strptime s fmt = Some t \<Longrightarrow>
     datetime_new (year t) (month t) (day t) (hour t) (minute t) (second t) (microsecond t) = Some t"
  unfolding strptime_def
  by (auto split: option.splits prod.splits if_splits dest: datetime_new_fields)

lemma parse_date_valid:
  assumes "parse_date (PStr s) = Some t"
  shows "datetime_new (year t) (month t) (day t) (hour t) (minute t) (second t) (microsecond t) = Some t"
proof -
  from assms obtain fmt where
    "strptime (str_remove ''Z'' (str_remove ''+00:00'' s)) (str_remove ''Z'' fmt) = Some t"
    by (auto dest: first_some_Some)
  then show ?thesis by (rule strptime_fields)
qed

lemma parse_date_isoformat:
  assumes t: "1 \<le> year t" "year t \<le> 9999" "1 \<le> month t" "month t \<le> 12" "1 \<le> day t" "day t \<le> 31"
      "hour t \<le> 23" "minute t \<le> 59" "second t \<le> 59" "microsecond t \<le> 999999"
    and v: "datetime_new (year t) (month t) (day t) (hour t) (minute t) (second t) (microsecond t) = Some t"
  shows "parse_date (PStr (isoformat t)) = Some t"
proof (cases "microsecond t = 0")
  case True
  from strptime_whole_seconds [OF t(1-9) v True] show ?thesis
    by (simp add: isoformat_stripped date_formats_def)
next
  case False
  from strptime_fraction_left [OF t(3-9) False] strptime_fraction [OF t v False] show ?thesis
    by (simp add: isoformat_stripped date_formats_def)
qed

subsection \<open>Parsing the text that \<^verbatim>\<open>str\<close> gives for a timestamp\<close>

text \<open>Every format with a time has \<^verbatim>\<open>T\<close> where the text has a blank, and the formats
  with slashes meet a digit of the year where they have the slash, whichever alternative
  of a directive is tried.\<close>

lemma digit_value_pad: "\<exists>v. digit_value (digit_char n) = Some v"
  using digit_value_digit_char [of "n mod 10"] by (simp add: digit_char_mod)

lemma digit_value_char:
  assumes "digit_value c = Some v"
  shows "c \<noteq> CHR '' ''" "lower_char c \<noteq> CHR ''t''" "lower_char c \<noteq> CHR ''-''" "lower_char c \<noteq> CHR ''/''"
  using assms by (auto simp: digit_value_def lower_char_def Let_def split: if_splits)

lemma lower_char_literals:
  "lower_char CHR ''T'' = CHR ''t''" "lower_char CHR ''-'' = CHR ''-''" "lower_char CHR ''/'' = CHR ''/''"
  "lower_char CHR '' '' = CHR '' ''"
  by (simp_all add: lower_char_def char_of_eq_char)

lemma day_then_T:
  assumes "digit_value a = Some x" "digit_value b = Some y"
  shows "regex_match (Directive CHR ''d'' # Lit CHR ''T'' # fs) (a # b # CHR '' '' # rest) = None"
  using assms digit_value_char [OF assms(1)] digit_value_char [OF assms(2)]
  by (simp add: directive_regex_def lower_char_literals)

lemma month_then_T:
  assumes "digit_value a = Some x" "digit_value b = Some y" "digit_value c = Some z" "digit_value e = Some w"
  shows "regex_match (Directive CHR ''m'' # Lit CHR ''-'' # Directive CHR ''d'' # Lit CHR ''T'' # fs)
           (a # b # CHR ''-'' # c # e # CHR '' '' # rest) = None"
  using assms(1,2) digit_value_char [OF assms(1)] digit_value_char [OF assms(2)]
    day_then_T [OF assms(3,4), of fs rest]
  by (subst regex_match.simps(4)) (simp add: directive_regex_def lower_char_literals del: regex_match.simps(4))

lemma year_then_T:
  assumes "digit_value y1 = Some v1" "digit_value y2 = Some v2" "digit_value y3 = Some v3" "digit_value y4 = Some v4"
    and "digit_value a = Some x" "digit_value b = Some y" "digit_value c = Some z" "digit_value e = Some w"
  shows "regex_match (Directive CHR ''Y'' # Lit CHR ''-'' # Directive CHR ''m'' # Lit CHR ''-''
                        # Directive CHR ''d'' # Lit CHR ''T'' # fs)
           (y1 # y2 # y3 # y4 # CHR ''-'' # a # b # CHR ''-'' # c # e # CHR '' '' # rest) = None"
  using assms(1-4) month_then_T [OF assms(5-8), of fs rest]
  by (subst regex_match.simps(4)) (simp add: directive_regex_def lower_char_literals del: regex_match.simps(4))

lemma day_then_slash:
  assumes "digit_value a = Some x" "digit_value b = Some y" "digit_value c = Some z"
  shows "regex_match (Directive CHR ''d'' # Lit CHR ''/'' # fs) (a # b # c # rest) = None"
  using assms digit_value_char [OF assms(1)] digit_value_char [OF assms(2)] digit_value_char [OF assms(3)]
  by (simp add: directive_regex_def lower_char_literals)

lemma month_then_slash:
  assumes "digit_value a = Some x" "digit_value b = Some y" "digit_value c = Some z"
  shows "regex_match (Directive CHR ''m'' # Lit CHR ''/'' # fs) (a # b # c # rest) = None"
  using assms digit_value_char [OF assms(1)] digit_value_char [OF assms(2)] digit_value_char [OF assms(3)]
  by (simp add: directive_regex_def lower_char_literals)

text \<open>The text \<^verbatim>\<open>str\<close> gives starts with the date and a blank.\<close>

lemma datetime_str_date:
  "\<exists>rest. datetime_str t = pad4 (year t) @ ''-'' @ pad2 (month t) @ ''-'' @ pad2 (day t) @ CHR '' '' # rest"
  by (simp add: datetime_str_def isoformat_sep_def)

lemma pad_digits:
  "\<exists>a b va vb. pad2 n = [a, b] \<and> digit_value a = Some va \<and> digit_value b = Some vb"
  using digit_value_pad [of "n div 10"] digit_value_pad [of n] by (auto simp: pad2_def)

lemma datetime_str_chars: "CHR ''+'' \<notin> set (datetime_str t)" "CHR ''Z'' \<notin> set (datetime_str t)"
  by (simp_all add: datetime_str_def isoformat_sep_def pad_chars)

lemma datetime_str_stripped: "str_remove ''Z'' (str_remove ''+00:00'' (datetime_str t)) = datetime_str t"
  by (simp add: str_remove_absent datetime_str_chars)

lemma strptime_no_match: "regex_match (compile_format fmt) s = None \<Longrightarrow> strptime s fmt = None"
  by (simp add: strptime_def)

lemma regex_match_str:
  "regex_match (Directive CHR ''Y'' # Lit CHR ''-'' # Directive CHR ''m'' # Lit CHR ''-''
                  # Directive CHR ''d'' # Lit CHR ''T'' # fs) (datetime_str t) = None"
  "regex_match (Directive CHR ''d'' # Lit CHR ''/'' # fs) (datetime_str t) = None"
  "regex_match (Directive CHR ''m'' # Lit CHR ''/'' # fs) (datetime_str t) = None"
proof -
  obtain rest where s: "datetime_str t = pad4 (year t) @ ''-'' @ pad2 (month t) @ ''-'' @ pad2 (day t) @ CHR '' '' # rest"
    using datetime_str_date by blast
  obtain y1 y2 v1 v2 where y12: "pad2 (year t div 100) = [y1, y2]" "digit_value y1 = Some v1" "digit_value y2 = Some v2"
    using pad_digits by blast
  obtain y3 y4 v3 v4 where y34: "pad2 (year t mod 100) = [y3, y4]" "digit_value y3 = Some v3" "digit_value y4 = Some v4"
    using pad_digits by blast
  obtain a b x y where m: "pad2 (month t) = [a, b]" "digit_value a = Some x" "digit_value b = Some y"
    using pad_digits by blast
  obtain c e z w where d: "pad2 (day t) = [c, e]" "digit_value c = Some z" "digit_value e = Some w"
    using pad_digits by blast
  have s': "datetime_str t = y1 # y2 # y3 # y4 # CHR ''-'' # a # b # CHR ''-'' # c # e # CHR '' '' # rest"
    unfolding s pad4_def y12(1) y34(1) m(1) d(1) by simp
  show "regex_match (Directive CHR ''Y'' # Lit CHR ''-'' # Directive CHR ''m'' # Lit CHR ''-''
                  # Directive CHR ''d'' # Lit CHR ''T'' # fs) (datetime_str t) = None"
    unfolding s' by (rule year_then_T [OF y12(2,3) y34(2,3) m(2,3) d(2,3)])
  show "regex_match (Directive CHR ''d'' # Lit CHR ''/'' # fs) (datetime_str t) = None"
    unfolding s' by (rule day_then_slash [OF y12(2,3) y34(2)])
  show "regex_match (Directive CHR ''m'' # Lit CHR ''/'' # fs) (datetime_str t) = None"
    unfolding s' by (rule month_then_slash [OF y12(2,3) y34(2)])
qed

lemma strptime_str_with_time:
  "strptime (datetime_str t) ''%Y-%m-%dT%H:%M:%S'' = None"
  "strptime (datetime_str t) ''%Y-%m-%dT%H:%M:%S.%f'' = None"
  "strptime (datetime_str t) ''%d/%m/%Y'' = None"
  "strptime (datetime_str t) ''%m/%d/%Y'' = None"
  by (rule strptime_no_match, simp add: regex_match_str del: regex_match.simps(4))+

text \<open>The format of a date alone matches the date and leaves the time unconverted.\<close>

lemma strptime_str_date_only:
  assumes t: "1 \<le> month t" "month t \<le> 12" "1 \<le> day t" "day t \<le> 31"
  shows "strptime (datetime_str t) ''%Y-%m-%d'' = None"
proof -
  obtain rest where s: "datetime_str t = pad4 (year t) @ ''-'' @ pad2 (month t) @ ''-'' @ pad2 (day t) @ CHR '' '' # rest"
    using datetime_str_date by blast
  let ?rest = "CHR '' '' # rest"
  have "regex_match [] ?rest = Some ([], ?rest)" by simp
  note dd = directive_d [OF this t(3,4)]
  have "regex_match (Lit CHR ''-'' # [Directive CHR ''d'']) (''-'' @ pad2 (day t) @ ?rest)
          = Some ([(CHR ''d'', pad2 (day t))], ?rest)"
    using dd by simp
  note mm = directive_m [OF this t(1,2)]
  have "regex_match (Lit CHR ''-'' # Directive CHR ''m'' # Lit CHR ''-'' # [Directive CHR ''d''])
          (''-'' @ pad2 (month t) @ ''-'' @ pad2 (day t) @ ?rest)
          = Some ([(CHR ''m'', pad2 (month t)), (CHR ''d'', pad2 (day t))], ?rest)"
    using mm by simp
  note yy = directive_Y [OF this, of "year t"]
  have "regex_match (compile_format ''%Y-%m-%d'') (datetime_str t)
          = Some ([(CHR ''Y'', pad4 (year t)), (CHR ''m'', pad2 (month t)), (CHR ''d'', pad2 (day t))], ?rest)"
    unfolding s using yy by simp
  then show ?thesis
    by (simp add: strptime_def del: compile_format.simps)
qed

lemma parse_date_datetime_str:
  assumes t: "1 \<le> month t" "month t \<le> 12" "1 \<le> day t" "day t \<le> 31"
  shows "parse_date (PStr (datetime_str t)) = None"
  using strptime_str_date_only [OF t]
  by (simp add: datetime_str_stripped date_formats_def strptime_str_with_time)

subsection \<open>A timestamp and its two texts\<close>

lemma sample_parse: "parse_date (PStr ''2024-03-12T09:30:00Z'') = Some sample_timestamp"
  by (simp add: date_eval sample_timestamp_def)

lemma sample_isoformat: "isoformat sample_timestamp = ''2024-03-12T09:30:00''"
  by (simp add: sample_timestamp_def isoformat_def isoformat_sep_def pad4_def pad2_def digit_char_def char_of_eq_char)

lemma sample_str: "datetime_str sample_timestamp = ''2024-03-12 09:30:00''"
  by (simp add: sample_timestamp_def datetime_str_def isoformat_sep_def pad4_def pad2_def digit_char_def char_of_eq_char)

lemma sample_str_unparsed: "parse_date (PStr ''2024-03-12 09:30:00'') = None"
  by (simp add: date_eval)

text \<open>
  Claim C6, as the specification states it, fails when the string representation of the
  parsed timestamp is the one \<^verbatim>\<open>str\<close> gives: \<^verbatim>\<open>2024-03-12T09:30:00Z\<close> parses to
  12 March 2024, 09:30:00, whose string representation \<^verbatim>\<open>2024-03-12 09:30:00\<close> has a
  blank where every format with a time has \<^verbatim>\<open>T\<close>, and \<^verbatim>\<open>parse_date\<close> returns
  \<^verbatim>\<open>None\<close> on it.
\<close>

theorem str_of_timestamp_not_parsed_counterexample:
  "parse_date (PStr ''2024-03-12T09:30:00Z'') = Some sample_timestamp \<and>
   datetime_str sample_timestamp = ''2024-03-12 09:30:00'' \<and>
   parse_date (PStr (datetime_str sample_timestamp)) = None"
  by (simp only: sample_parse sample_str sample_str_unparsed simp_thms)

text \<open>
  Claim C6, amended. For every text that \<^verbatim>\<open>parse_date\<close> parses under one of its
  formats, parsing the ISO 8601 text of the result (\<^verbatim>\<open>isoformat()\<close>, with the \<^verbatim>\<open>T\<close>
  separator) gives the same timestamp again, and so does \<^verbatim>\<open>parse_date\<close> applied to the
  timestamp itself; on the text that \<^verbatim>\<open>str\<close> gives for the result, with a blank for
  the \<^verbatim>\<open>T\<close>, \<^verbatim>\<open>parse_date\<close> returns \<^verbatim>\<open>None\<close>.
\<close>

theorem parse_date_round_trip:
  assumes "parse_date (PStr s) = Some t"
  shows "parse_date (PStr (isoformat t)) = Some t \<and> parse_date (PDateTime t) = Some t
         \<and> parse_date (PStr (datetime_str t)) = None"
proof -
  from assms have "\<forall>t'. PStr s \<noteq> PDateTime t'" by simp
  with assms have f: "1 \<le> year t \<and> year t \<le> 9999 \<and> 1 \<le> month t \<and> month t \<le> 12 \<and> 1 \<le> day t \<and> day t \<le> 31
       \<and> hour t \<le> 23 \<and> minute t \<le> 59 \<and> second t \<le> 59 \<and> microsecond t \<le> 999999"
    by (rule parse_date_fields)
  from assms have v: "datetime_new (year t) (month t) (day t) (hour t) (minute t) (second t) (microsecond t) = Some t"
    by (rule parse_date_valid)
  from f v have "parse_date (PStr (isoformat t)) = Some t"
    by (intro parse_date_isoformat) simp_all
  moreover from f have "parse_date (PStr (datetime_str t)) = None"
    by (intro parse_date_datetime_str) simp_all
  ultimately show ?thesis by simp
qed

text \<open>The round trip of \<^verbatim>\<open>2024-03-12T09:30:00Z\<close>.\<close>

theorem parse_date_round_trip_witness:
  "parse_date (PStr ''2024-03-12T09:30:00Z'') = Some sample_timestamp \<and>
   isoformat sample_timestamp = ''2024-03-12T09:30:00'' \<and>
   parse_date (PStr (isoformat sample_timestamp)) = Some sample_timestamp \<and>
   parse_date (PDateTime sample_timestamp) = Some sample_timestamp \<and>
   parse_date (PStr (datetime_str sample_timestamp)) = None"
  using parse_date_round_trip [OF sample_parse] sample_parse sample_isoformat
  by (simp only: simp_thms)

end
